theory Spec2Isabelle
  imports Main "HOL-Library.Sublist"
begin

unbundle bit_operations_syntax

section \<open>Route patterns and link eligibility (router.js, checkRoutes)\<close>

text \<open>
  Strings are lists of 8-bit characters: the code units below 256 of a JavaScript
  string. A link's \<^verbatim>\<open>pathname\<close> is ASCII anyway, since URL serialisation
  percent-encodes everything else.

  \<^verbatim>\<open>route.replace('*', '')\<close> has a string as its first argument, so it removes
  the first occurrence of the wildcard only.
\<close>

fun replace_star :: "string \<Rightarrow> string" where
  "replace_star [] = []"
| "replace_star (c # cs) = (if c = CHR ''*'' then cs else c # replace_star cs)"

text \<open>
  \<^verbatim>\<open>new RegExp(source, 'i')\<close>. The model covers the sources built of ordinary
  characters and of \<^verbatim>\<open>.\<close>; a source with any other syntax character of the
  pattern grammar (\<^verbatim>\<open>^ $ \ * + ? ( ) [ ] { } |\<close>) is outside the model
  (\<open>None\<close>): the engine may throw a SyntaxError on it or match by rules that are not
  modelled here.
\<close>

datatype atom = Lit char | Dot

definition syntax_character :: "char \<Rightarrow> bool" where
  "syntax_character c \<longleftrightarrow> c \<in> set (CHR 0x5C # ''^$.*+?()[]{}|'')"

fun compile :: "string \<Rightarrow> atom list option" where
  "compile [] = Some []"
| "compile (c # cs) =
     (if c = CHR ''.'' then map_option ((#) Dot) (compile cs)
      else if syntax_character c then None
      else map_option ((#) (Lit c)) (compile cs))"

text \<open>
  The \<^verbatim>\<open>i\<close> flag compares canonicalised characters: the upper-case form of a
  character, unless that form is not a single code unit or leads from outside ASCII into
  ASCII. The form is given as a code unit. Below 256 the canonical form of
  \<^verbatim>\<open>a\<close>..\<^verbatim>\<open>z\<close> and of the Latin-1 small letters (0xE0..0xFE except the
  division sign 0xF7) is 32 below the character. The upper-case forms of 0xB5 and 0xFF
  lie above 255 and are the form of no other character below 256, so leaving the two
  fixed compares them correctly.
\<close>

definition canonicalize :: "char \<Rightarrow> nat" where
  "canonicalize c =
     (let n = (of_char c :: nat)
      in if (97 \<le> n \<and> n \<le> 122) \<or> (224 \<le> n \<and> n \<le> 254 \<and> n \<noteq> 247)
         then n - 32 else n)"

text \<open>\<^verbatim>\<open>.\<close> matches every character but a line terminator (line feed, carriage return).\<close>

fun atom_matches :: "atom \<Rightarrow> char \<Rightarrow> bool" where
  "atom_matches (Lit a) c = (canonicalize a = canonicalize c)"
| "atom_matches Dot c = (c \<noteq> CHR 0x0A \<and> c \<noteq> CHR 0x0D)"

fun matches_here :: "atom list \<Rightarrow> string \<Rightarrow> bool" where
  "matches_here [] s = True"
| "matches_here (a # as) [] = False"
| "matches_here (a # as) (c # cs) = (atom_matches a c \<and> matches_here as cs)"

text \<open>\<^verbatim>\<open>test\<close> of a fresh expression without the global flag: a match at any start index.\<close>

fun regex_search :: "atom list \<Rightarrow> string \<Rightarrow> bool" where
  "regex_search as [] = matches_here as []"
| "regex_search as (c # cs) = (matches_here as (c # cs) \<or> regex_search as cs)"

definition RegExp_test :: "string \<Rightarrow> string \<Rightarrow> bool option" where
  "RegExp_test source s = map_option (\<lambda>as. regex_search as s) (compile source)"

text \<open>
  A link element: its \<^verbatim>\<open>pathname\<close>, whether its \<^verbatim>\<open>dataset\<close> has the own property
  \<^verbatim>\<open>noSpa\<close> (a \<^verbatim>\<open>data-no-spa\<close> attribute), and how many click listeners
  \<^verbatim>\<open>enableSPA\<close> has added to it.
\<close>

record link =
  pathname :: string
  dataset_noSpa :: bool
  click_listeners :: nat

text \<open>
  \<^verbatim>\<open>Array.prototype.findIndex\<close>: the index of the first element the predicate
  accepts, or -1. The predicate is called on the elements in order and on no element
  after the first accepted one, so a pattern outside the model matters only when it is
  reached.
\<close>

fun findIndex :: "('a \<Rightarrow> bool option) \<Rightarrow> 'a list \<Rightarrow> int option" where
  "findIndex p [] = Some (- 1)"
| "findIndex p (x # xs) =
     (case p x of
        None \<Rightarrow> None
      | Some True \<Rightarrow> Some 0
      | Some False \<Rightarrow>
          (case findIndex p xs of
             None \<Rightarrow> None
           | Some i \<Rightarrow> Some (if i = - 1 then - 1 else i + 1)))"

text \<open>
  \<^verbatim>\<open>checkRoutes\<close> is called as \<^verbatim>\<open>this.checkRoutes.apply(link, [this.routes])\<close>:
  inside it \<^verbatim>\<open>this\<close> is the link, and \<^verbatim>\<open>this.pathname\<close> the link's own pathname.
  The result is \<^verbatim>\<open>!!~index && !this.dataset.hasOwnProperty('noSpa')\<close>.
\<close>

definition checkRoutes :: "link \<Rightarrow> string list \<Rightarrow> bool option" where
  "checkRoutes this routes =
     (case findIndex (\<lambda>route. RegExp_test (replace_star route) (pathname this)) routes of
        None \<Rightarrow> None
      | Some i \<Rightarrow> Some (NOT i \<noteq> 0 \<and> \<not> dataset_noSpa this))"

section \<open>Documents\<close>

text \<open>
  A script element: \<open>sid\<close> is the element's identity (two references are the same
  element iff the identities are equal), the rest are the properties the router reads.
  \<^verbatim>\<open>src\<close> is empty for an inline script. The router never writes a property
  of an existing script element; it only moves, removes and creates elements.
\<close>

record script =
  sid :: nat
  src :: string
  textContent :: string
  type :: string

text \<open>
  A node of the document tree: a script element, a link (an \<^verbatim>\<open>a\<close> element with
  an \<^verbatim>\<open>href\<close>, taken as a leaf), any other element with its upper-case
  \<^verbatim>\<open>tagName\<close> and its children, or text.
\<close>

datatype node = Script script | Link link | Elem string "node list" | Text string

text \<open>
  A document: its title and the children of its \<^verbatim>\<open>head\<close> and of its
  \<^verbatim>\<open>body\<close> element.
\<close>

record html_document =
  title :: string
  head :: "node list"
  body :: "node list"

text \<open>The script elements below a list of siblings, in tree order.\<close>

fun scripts_of :: "node list \<Rightarrow> script list" where
  "scripts_of [] = []"
| "scripts_of (Script sc # ns) = sc # scripts_of ns"
| "scripts_of (Link l # ns) = scripts_of ns"
| "scripts_of (Elem t cs # ns) = scripts_of cs @ scripts_of ns"
| "scripts_of (Text x # ns) = scripts_of ns"

text \<open>\<^verbatim>\<open>document.scripts\<close>\<close>

definition document_scripts :: "html_document \<Rightarrow> script list" where
  "document_scripts d = scripts_of (head d) @ scripts_of (body d)"

fun links_of :: "node list \<Rightarrow> link list" where
  "links_of [] = []"
| "links_of (Script sc # ns) = links_of ns"
| "links_of (Link l # ns) = l # links_of ns"
| "links_of (Elem t cs # ns) = links_of cs @ links_of ns"
| "links_of (Text x # ns) = links_of ns"

text \<open>\<^verbatim>\<open>document.links\<close>\<close>

definition document_links :: "html_document \<Rightarrow> link list" where
  "document_links d = links_of (head d) @ links_of (body d)"

fun map_links :: "(link \<Rightarrow> link) \<Rightarrow> node list \<Rightarrow> node list" where
  "map_links f [] = []"
| "map_links f (Script sc # ns) = Script sc # map_links f ns"
| "map_links f (Link l # ns) = Link (f l) # map_links f ns"
| "map_links f (Elem t cs # ns) = Elem t (map_links f cs) # map_links f ns"
| "map_links f (Text x # ns) = Text x # map_links f ns"

text \<open>
  \<^verbatim>\<open>$sc.parentNode.tagName\<close>, for the element \<open>i\<close> among the children \<open>ns\<close>
  of an element whose tag is \<open>t\<close>, or below them; \<open>None\<close> when it is not there.
\<close>

fun parent_tagName :: "nat \<Rightarrow> string \<Rightarrow> node list \<Rightarrow> string option" where
  "parent_tagName i t [] = None"
| "parent_tagName i t (Script sc # ns) = (if sid sc = i then Some t else parent_tagName i t ns)"
| "parent_tagName i t (Link l # ns) = parent_tagName i t ns"
| "parent_tagName i t (Elem t' cs # ns) =
     (case parent_tagName i t' cs of Some r \<Rightarrow> Some r | None \<Rightarrow> parent_tagName i t ns)"
| "parent_tagName i t (Text x # ns) = parent_tagName i t ns"

definition parentNode_tagName :: "nat \<Rightarrow> html_document \<Rightarrow> string option" where
  "parentNode_tagName i d =
     (case parent_tagName i ''HEAD'' (head d) of
        Some r \<Rightarrow> Some r
      | None \<Rightarrow> parent_tagName i ''BODY'' (body d))"

text \<open>\<^verbatim>\<open>$sc.remove()\<close>: the element leaves its parent; nothing happens when it has none.\<close>

fun remove_script :: "nat \<Rightarrow> node list \<Rightarrow> node list" where
  "remove_script i [] = []"
| "remove_script i (Script sc # ns) =
     (if sid sc = i then remove_script i ns else Script sc # remove_script i ns)"
| "remove_script i (Link l # ns) = Link l # remove_script i ns"
| "remove_script i (Elem t cs # ns) = Elem t (remove_script i cs) # remove_script i ns"
| "remove_script i (Text x # ns) = Text x # remove_script i ns"

definition remove :: "nat \<Rightarrow> html_document \<Rightarrow> html_document" where
  "remove i d = d\<lparr>head := remove_script i (head d), body := remove_script i (body d)\<rparr>"

text \<open>
  \<^verbatim>\<open>$sc.parentNode.insertBefore($script, $sc); $sc.remove()\<close>: the new element
  takes the place of the old one among its siblings.
\<close>

fun replace_script :: "nat \<Rightarrow> script \<Rightarrow> node list \<Rightarrow> node list" where
  "replace_script i new [] = []"
| "replace_script i new (Script sc # ns) =
     (if sid sc = i then Script new # replace_script i new ns
      else Script sc # replace_script i new ns)"
| "replace_script i new (Link l # ns) = Link l # replace_script i new ns"
| "replace_script i new (Elem t cs # ns) =
     Elem t (replace_script i new cs) # replace_script i new ns"
| "replace_script i new (Text x # ns) = Text x # replace_script i new ns"

definition insertBefore_remove :: "nat \<Rightarrow> script \<Rightarrow> html_document \<Rightarrow> html_document" where
  "insertBefore_remove i new d =
     d\<lparr>head := replace_script i new (head d), body := replace_script i new (body d)\<rparr>"

text \<open>
  The parser creates new elements: the script elements of a parsed tree get the
  identities \<open>k\<close>, \<open>k + 1\<close>, ... in tree order, whatever \<open>sid\<close> the tree had.
\<close>

fun create_elements :: "nat \<Rightarrow> node list \<Rightarrow> node list" where
  "create_elements k [] = []"
| "create_elements k (Script sc # ns) = Script (sc\<lparr>sid := k\<rparr>) # create_elements (Suc k) ns"
| "create_elements k (Link l # ns) = Link l # create_elements k ns"
| "create_elements k (Elem t cs # ns) =
     Elem t (create_elements k cs) # create_elements (k + length (scripts_of cs)) ns"
| "create_elements k (Text x # ns) = Text x # create_elements k ns"

section \<open>The network port: fetch and getPage\<close>

text \<open>
  A response: its status code and status text, and the result of decoding its body with
  \<^verbatim>\<open>response.text()\<close>: the text, represented by the tree the HTML parser builds
  from it, or \<open>None\<close> when the decoding fails. \<^verbatim>\<open>response.ok\<close> says that the
  status is in the range 200 to 299.
\<close>

record response =
  status :: nat
  statusText :: string
  response_text :: "html_document option"

definition ok :: "response \<Rightarrow> bool" where
  "ok r \<longleftrightarrow> 200 \<le> status r \<and> status r \<le> 299"

text \<open>
  The errors of the program: a \<^verbatim>\<open>TypeError\<close> of the host with its message (a
  rejected fetch, a property read on \<^verbatim>\<open>null\<close> or \<^verbatim>\<open>undefined\<close>), and the
  error \<^verbatim>\<open>getPage\<close> builds from a response: \<^verbatim>\<open>new Error(response.statusText)\<close>
  with the properties \<^verbatim>\<open>status\<close> and \<^verbatim>\<open>response\<close> added.
\<close>

datatype js_error = TypeError string | Error string nat response

fun message :: "js_error \<Rightarrow> string" where
  "message (TypeError m) = m"
| "message (Error m st r) = m"

fun error_status :: "js_error \<Rightarrow> nat option" where
  "error_status (TypeError m) = None"
| "error_status (Error m st r) = Some st"

datatype 'a promise = Resolved 'a | Rejected js_error

text \<open>What \<^verbatim>\<open>getPage\<close> resolves with: the text of the page, or the response object.\<close>

datatype page = Html html_document | ResponseObject response

text \<open>
  \<^verbatim>\<open>fetch\<close> is a parameter: it gives, for a URL, the response the promise resolves
  with or the error it rejects with (a network error). It resolves for every status.
\<close>

definition getPage :: "(string \<Rightarrow> response promise) \<Rightarrow> string \<Rightarrow> page promise" where
  "getPage fetch url =
     (case fetch url of
        Rejected e \<Rightarrow> Rejected e
      | Resolved r \<Rightarrow>
          if ok r
          then (case response_text r of Some t \<Rightarrow> Resolved (Html t) | None \<Rightarrow> Resolved (ResponseObject r))
          else Rejected (Error (statusText r) (status r) r))"

section \<open>The router and the browser it runs in\<close>

text \<open>
  Outside the model: what a script does when it runs after it is inserted, options whose
  \<^verbatim>\<open>routes\<close> is not an array of strings, a parsed document without a body element,
  and a URL that \<^verbatim>\<open>pushState\<close> refuses (one of another origin). Every call of
  \<^verbatim>\<open>navigate\<close> is taken from its start to the settling of its promises in one
  step: between the suspension points of a navigation the code reads nothing of the state
  but its argument, and the handlers run without interruption.
\<close>

text \<open>
  A history entry holds the state object given to \<^verbatim>\<open>pushState\<close>, here
  \<^verbatim>\<open>{url: ...}\<close>. The entry of an ordinary page load has no state
  (\<^verbatim>\<open>null\<close>), and an object may lack the \<^verbatim>\<open>url\<close> property.
\<close>

record history_state =
  url :: "string option"

record history_entry =
  entry_state :: "history_state option"
  entry_title :: string
  entry_url :: string

text \<open>
  The browser: the live document, the location, the session history with the index of
  the current entry, whether \<^verbatim>\<open>window.onpopstate\<close> is the router's handler, the
  lines written by \<^verbatim>\<open>console.error\<close>, and the identity of the next element to be
  created.
\<close>

record browser =
  document :: html_document
  location_pathname :: string
  history :: "history_entry list"
  history_index :: nat
  onpopstate_set :: bool
  console :: "string list"
  next_id :: nat

text \<open>The options object given to the constructor.\<close>

record options =
  routes :: "string list"
  enabled :: bool

text \<open>
  The state: the browser and the fields of the router. \<^verbatim>\<open>scriptsStore\<close> and
  \<^verbatim>\<open>initialScripts\<close> are defined only in a router that is enabled; what the two
  fields hold otherwise is never read.
\<close>

record state = browser +
  options :: options
  scriptsStore :: "script list"
  initialScripts :: "script list"

text \<open>
  An exception leaves the state as it is at the throw. \<open>OutsideModel\<close>: a route
  pattern outside the modelled expressions was evaluated.
\<close>

datatype failure = Throw js_error state | OutsideModel

text \<open>The wording of a failed property read (V8's).\<close>

definition cannot_read :: "string \<Rightarrow> string \<Rightarrow> js_error" where
  "cannot_read v p =
     TypeError (''Cannot read properties of '' @ v @ '' (reading '' @ [CHR 0x27] @ p @ [CHR 0x27] @ '')'')"

text \<open>
  \<^verbatim>\<open>history.pushState(state, title, url)\<close>: the entries after the current one are
  dropped, the new entry becomes the current one and the location changes to \<open>url\<close>
  (an absolute path).
\<close>

definition pushState :: "history_state \<Rightarrow> string \<Rightarrow> string \<Rightarrow> state \<Rightarrow> state" where
  "pushState st ttl u s =
     s\<lparr>history := take (Suc (history_index s)) (history s)
                  @ [\<lparr>entry_state = Some st, entry_title = ttl, entry_url = u\<rparr>],
       history_index := length (take (Suc (history_index s)) (history s)),
       location_pathname := u\<rparr>"

definition console_error :: "string \<Rightarrow> state \<Rightarrow> state" where
  "console_error line s = s\<lparr>console := console s @ [line]\<rparr>"

text \<open>The getter \<^verbatim>\<open>routes\<close>.\<close>

definition get_routes :: "state \<Rightarrow> string list" where
  "get_routes s = routes (options s)"

text \<open>
  \<^verbatim>\<open>enableSPA\<close>: \<^verbatim>\<open>filter\<close> calls \<^verbatim>\<open>checkRoutes\<close> on every link of the
  document, in order, before \<^verbatim>\<open>map\<close> adds a listener to each link that passed. Every
  call of \<^verbatim>\<open>this.navigate.bind(this)\<close> gives a new function, so every pass adds one
  more listener.
\<close>

definition addEventListener :: "link \<Rightarrow> link" where
  "addEventListener l = l\<lparr>click_listeners := Suc (click_listeners l)\<rparr>"

definition enableSPA_link :: "string list \<Rightarrow> link \<Rightarrow> link" where
  "enableSPA_link rs l = (if checkRoutes l rs = Some True then addEventListener l else l)"

definition enableSPA :: "state \<Rightarrow> state option" where
  "enableSPA s =
     (case those (map (\<lambda>l. checkRoutes l (get_routes s)) (document_links (document s))) of
        None \<Rightarrow> None
      | Some passed \<Rightarrow>
          Some (s\<lparr>document := (document s)
                  \<lparr>head := map_links (enableSPA_link (get_routes s)) (head (document s)),
                   body := map_links (enableSPA_link (get_routes s)) (body (document s))\<rparr>\<rparr>))"

text \<open>
  \<^verbatim>\<open>parseHTML\<close>: the parser turns its argument into a string first, so the response
  object that \<^verbatim>\<open>getPage\<close> may resolve with is parsed as the text
  \<^verbatim>\<open>[object Response]\<close>.
\<close>

definition parseHTML :: "page \<Rightarrow> state \<Rightarrow> html_document \<times> state" where
  "parseHTML html s =
     (case html of
        Html t \<Rightarrow>
          (\<lparr>title = title t,
            head = create_elements (next_id s) (head t),
            body = create_elements (next_id s + length (scripts_of (head t))) (body t)\<rparr>,
           s\<lparr>next_id := next_id s + length (scripts_of (head t)) + length (scripts_of (body t))\<rparr>)
      | ResponseObject r \<Rightarrow>
          (\<lparr>title = '''', head = [], body = [Text ''[object Response]'']\<rparr>, s))"

text \<open>
  \<^verbatim>\<open>clear\<close>: every element of the store is removed from its parent.
  \<^verbatim>\<open>this.scriptsStore\<close> is undefined in a router that is not enabled.
\<close>

definition clear :: "state \<Rightarrow> failure + state" where
  "clear s =
     (if enabled (options s)
      then Inr (s\<lparr>document := fold (\<lambda>sc d. remove (sid sc) d) (scriptsStore s) (document s)\<rparr>)
      else Inl (Throw (cannot_read ''undefined'' ''forEach'') s))"

text \<open>
  \<^verbatim>\<open>loadHTML\<close>: the body element of the parsed document moves into the live
  document, so the parsed document is left without it.
\<close>

definition loadHTML :: "html_document \<Rightarrow> state \<Rightarrow> state \<times> html_document" where
  "loadHTML h s =
     (s\<lparr>document := (document s)\<lparr>body := body h, title := title h\<rparr>\<rparr>, h\<lparr>body := []\<rparr>)"

definition isNotInitialScript :: "state \<Rightarrow> script \<Rightarrow> bool" where
  "isNotInitialScript s sc \<longleftrightarrow>
     \<not> list_ex (\<lambda>initSc. src initSc = src sc) (initialScripts s)
     \<or> \<not> list_ex (\<lambda>initSc. textContent initSc = textContent sc) (initialScripts s)"

text \<open>
  \<^verbatim>\<open>loadHeadScripts\<close>, on the live document and the parsed one:
  \<^verbatim>\<open>appendChild\<close> takes the element out of the parent it has, in whichever
  document, and makes it the last child of the live head.
\<close>

definition loadHeadScripts ::
  "script \<Rightarrow> state \<times> html_document \<Rightarrow> failure + state \<times> html_document" where
  "loadHeadScripts sc r =
     (case r of (s, h) \<Rightarrow>
        if \<not> enabled (options s) then Inl (Throw (cannot_read ''undefined'' ''some'') s)
        else if isNotInitialScript s sc
        then Inr (s\<lparr>scriptsStore := scriptsStore s @ [sc],
                    document := (remove (sid sc) (document s))
                      \<lparr>head := remove_script (sid sc) (head (document s)) @ [Script sc]\<rparr>\<rparr>,
                  remove (sid sc) h)
        else Inr (s, h))"

text \<open>
  \<^verbatim>\<open>loadBodyScripts\<close>: \<^verbatim>\<open>innerText\<close> of a script element is its text content,
  since a script element is not rendered.
\<close>

definition loadBodyScripts ::
  "script \<Rightarrow> state \<times> html_document \<Rightarrow> failure + state \<times> html_document" where
  "loadBodyScripts sc r =
     (case r of (s, h) \<Rightarrow>
        let script' = \<lparr>sid = next_id s,
                       src = (if src sc \<noteq> [] then src sc else []),
                       textContent = (if src sc \<noteq> [] then [] else textContent sc),
                       type = (if type sc \<noteq> [] then type sc else ''text/javascript'')\<rparr>;
            s' = s\<lparr>next_id := Suc (next_id s)\<rparr>
        in if parentNode_tagName (sid sc) (document s) = None \<and> parentNode_tagName (sid sc) h = None
           then Inl (Throw (cannot_read ''null'' ''insertBefore'') s')
           else Inr (s'\<lparr>document := insertBefore_remove (sid sc) script' (document s)\<rparr>,
                     insertBefore_remove (sid sc) script' h))"

text \<open>
  The callback of \<^verbatim>\<open>runScripts\<close>: the handler is chosen by the tag of the
  element's parent, read when the element is processed.
\<close>

definition runScripts_callback ::
  "script \<Rightarrow> state \<times> html_document \<Rightarrow> failure + state \<times> html_document" where
  "runScripts_callback sc r =
     (case r of (s, h) \<Rightarrow>
        (case (case parentNode_tagName (sid sc) (document s) of
                 Some t \<Rightarrow> Some t
               | None \<Rightarrow> parentNode_tagName (sid sc) h) of
           None \<Rightarrow> Inl (Throw (cannot_read ''null'' ''tagName'') s)
         | Some t \<Rightarrow>
             if t = ''HEAD'' then loadHeadScripts sc r
             else if t = ''BODY'' then loadBodyScripts sc r
             else Inr r))"

fun runScripts ::
  "script list \<Rightarrow> state \<times> html_document \<Rightarrow> failure + state \<times> html_document" where
  "runScripts [] r = Inr r"
| "runScripts (sc # scs) r =
     (case runScripts_callback sc r of
        Inl f \<Rightarrow> Inl f
      | Inr r' \<Rightarrow> runScripts scs r')"

text \<open>
  The argument of \<^verbatim>\<open>navigate\<close>: a path, the click event of a link (its
  \<^verbatim>\<open>currentTarget\<close> is the link the listener was added to), or \<^verbatim>\<open>undefined\<close>.
\<close>

datatype navigate_argument = Undefined | Path string | ClickEvent link

fun getUrl :: "navigate_argument \<Rightarrow> js_error + string" where
  "getUrl Undefined = Inl (cannot_read ''undefined'' ''target'')"
| "getUrl (Path p) = Inr p"
| "getUrl (ClickEvent l) = Inr (pathname l)"

text \<open>
  The handler \<^verbatim>\<open>navigate\<close> gives to \<^verbatim>\<open>then\<close>. The arguments of
  \<^verbatim>\<open>runScripts\<close> are read after \<^verbatim>\<open>loadHTML\<close> has returned.
\<close>

definition navigate_then :: "string \<Rightarrow> page \<Rightarrow> state \<Rightarrow> failure + state" where
  "navigate_then u htmlString s =
     (case parseHTML htmlString s of (html, s1) \<Rightarrow>
        (case clear s1 of
           Inl f \<Rightarrow> Inl f
         | Inr s2 \<Rightarrow>
             (case loadHTML html s2 of (s3, html3) \<Rightarrow>
                (case runScripts (document_scripts (document s3) @ document_scripts html3) (s3, html3) of
                   Inl f \<Rightarrow> Inl f
                 | Inr (s4, html4) \<Rightarrow>
                     (case enableSPA s4 of
                        None \<Rightarrow> Inl OutsideModel
                      | Some s5 \<Rightarrow>
                          Inr (pushState \<lparr>url = Some u\<rparr> (title (document s5)) u s5))))))"

text \<open>The handler \<^verbatim>\<open>navigate\<close> gives to \<^verbatim>\<open>catch\<close>.\<close>

definition navigate_catch :: "js_error \<Rightarrow> state \<Rightarrow> state" where
  "navigate_catch error s =
     console_error (''There has been a problem with your fetch operation: '' @ message error) s"

text \<open>
  \<^verbatim>\<open>navigate\<close>, from the call to the settling of its promise chain: the state is
  the one in which the chain settles, and nothing of the state but the argument is read
  before. \<^verbatim>\<open>preventDefault\<close> acts on the event only. An exception of the first two
  statements reaches the caller; one of the chain reaches the \<^verbatim>\<open>catch\<close> handler.
\<close>

definition navigate ::
  "(string \<Rightarrow> response promise) \<Rightarrow> navigate_argument \<Rightarrow> state \<Rightarrow> failure + state" where
  "navigate fetch a s =
     (case getUrl a of
        Inl e \<Rightarrow> Inl (Throw e s)
      | Inr u \<Rightarrow>
          (case getPage fetch u of
             Rejected e \<Rightarrow> Inr (navigate_catch e s)
           | Resolved htmlString \<Rightarrow>
               (case navigate_then u htmlString s of
                  Inl (Throw e s') \<Rightarrow> Inr (navigate_catch e s')
                | Inl OutsideModel \<Rightarrow> Inl OutsideModel
                | Inr s' \<Rightarrow> Inr s')))"

text \<open>
  The listener of \<^verbatim>\<open>addRouteListener\<close>:
  \<^verbatim>\<open>event => this.navigate(event.state.url)\<close>, on the \<^verbatim>\<open>state\<close> of the event.
\<close>

definition onpopstate ::
  "(string \<Rightarrow> response promise) \<Rightarrow> history_state option \<Rightarrow> state \<Rightarrow> failure + state" where
  "onpopstate fetch event_state s =
     (case event_state of
        None \<Rightarrow> Inl (Throw (cannot_read ''null'' ''url'') s)
      | Some st \<Rightarrow>
          navigate fetch (case url st of None \<Rightarrow> Undefined | Some p \<Rightarrow> Path p) s)"

text \<open>A popstate event: the window runs the listener when there is one.\<close>

definition popstate ::
  "(string \<Rightarrow> response promise) \<Rightarrow> history_state option \<Rightarrow> state \<Rightarrow> failure + state" where
  "popstate fetch event_state s =
     (if onpopstate_set s then onpopstate fetch event_state s else Inr s)"

definition addRouteListener :: "state \<Rightarrow> state" where
  "addRouteListener s = s\<lparr>onpopstate_set := True\<rparr>"

definition initialize :: "state \<Rightarrow> state option" where
  "initialize s =
     (case enableSPA (addRouteListener s) of
        None \<Rightarrow> None
      | Some s' \<Rightarrow>
          Some (pushState \<lparr>url = Some (location_pathname s')\<rparr> (title (document s'))
                  (location_pathname s') s'))"

text \<open>
  The constructor, in a browser that holds the page as loaded; \<open>None\<close> when a
  pattern outside the model is evaluated.
\<close>

definition constructor :: "options \<Rightarrow> browser \<Rightarrow> state option" where
  "constructor opts b =
     (if enabled opts
      then initialize
             (browser.extend b
                \<lparr>options = opts, scriptsStore = [], initialScripts = document_scripts (document b)\<rparr>)
      else Some (browser.extend b \<lparr>options = opts, scriptsStore = [], initialScripts = []\<rparr>))"

section \<open>Sequences of operations\<close>

text \<open>
  What happens to a router once it is constructed: calls of \<^verbatim>\<open>navigate\<close>, popstate
  events and calls of \<^verbatim>\<open>clear\<close>. A sequence goes on after an exception, in the
  state the exception left; it has no outcome when a pattern outside the model is met.
\<close>

datatype operation =
  Navigate "string \<Rightarrow> response promise" navigate_argument
| Popstate "string \<Rightarrow> response promise" "history_state option"
| Clear

fun perform :: "operation \<Rightarrow> state \<Rightarrow> failure + state" where
  "perform (Navigate fetch a) s = navigate fetch a s"
| "perform (Popstate fetch event_state) s = popstate fetch event_state s"
| "perform Clear s = clear s"

fun state_after :: "failure + state \<Rightarrow> state option" where
  "state_after (Inr s) = Some s"
| "state_after (Inl (Throw e s)) = Some s"
| "state_after (Inl OutsideModel) = None"

fun perform_all :: "operation list \<Rightarrow> state \<Rightarrow> state option" where
  "perform_all [] s = Some s"
| "perform_all (x # xs) s =
     (case state_after (perform x s) of
        None \<Rightarrow> None
      | Some s' \<Rightarrow> perform_all xs s')"

section \<open>What the router keeps and maintains\<close>

text \<open>
  \<open>untouched\<close>: what the rendering of a page leaves as it is, that is everything
  but the document, the store and the counter of identities.
  \<open>kept\<close>: the store has only grown, and the options and the snapshot are the
  same. \<open>snapshot_known\<close>: a script with the identity of a script of the snapshot is
  that script. \<open>router_invariant\<close>: the router is enabled, no stored script has the
  identity of a script of the snapshot, the scripts of the live document are known to the
  snapshot, and the identities of the snapshot are below the counter.
  \<open>wellformed\<close>: the scripts have distinct identities, all below the counter.
\<close>

definition untouched :: "state \<Rightarrow> state \<Rightarrow> bool" where
  "untouched s s' \<longleftrightarrow>
     options s' = options s \<and> initialScripts s' = initialScripts s
     \<and> history s' = history s \<and> history_index s' = history_index s
     \<and> location_pathname s' = location_pathname s \<and> onpopstate_set s' = onpopstate_set s
     \<and> console s' = console s"

definition kept :: "state \<Rightarrow> state \<Rightarrow> bool" where
  "kept s s' \<longleftrightarrow>
     prefix (scriptsStore s) (scriptsStore s') \<and> options s' = options s
     \<and> initialScripts s' = initialScripts s"

definition snapshot_known :: "script list \<Rightarrow> script list \<Rightarrow> bool" where
  "snapshot_known snapshot xs \<longleftrightarrow>
     list_all (\<lambda>x. sid x \<in> sid ` set snapshot \<longrightarrow> x \<in> set snapshot) xs"

definition router_invariant :: "state \<Rightarrow> bool" where
  "router_invariant s \<longleftrightarrow>
     enabled (options s)
     \<and> list_all (\<lambda>sc. sid sc \<notin> sid ` set (initialScripts s)) (scriptsStore s)
     \<and> snapshot_known (initialScripts s) (document_scripts (document s))
     \<and> list_all (\<lambda>x. sid x < next_id s) (initialScripts s)"

definition wellformed :: "nat \<Rightarrow> script list \<Rightarrow> bool" where
  "wellformed n xs \<longleftrightarrow> distinct (map sid xs) \<and> list_all (\<lambda>x. sid x < n) xs"

text \<open>An outcome with the console lines left out, to compare outcomes but for the console.\<close>

fun set_console :: "string list \<Rightarrow> failure \<Rightarrow> failure" where
  "set_console c (Throw e s) = Throw e (s\<lparr>console := c\<rparr>)"
| "set_console c OutsideModel = OutsideModel"

definition forget_console :: "failure + state \<Rightarrow> failure + state" where
  "forget_console r = map_sum (set_console []) (\<lambda>s. s\<lparr>console := []\<rparr>) r"

section \<open>The statements of the specification\<close>

text \<open>
  The specification's reading of eligibility: the patterns are matched against the path
  of the current document, and the link must not carry the opt-out marker.
\<close>

definition eligible_by_document_path :: "string \<Rightarrow> link \<Rightarrow> string list \<Rightarrow> bool option" where
  "eligible_by_document_path document_path l rs = checkRoutes (l\<lparr>pathname := document_path\<rparr>) rs"

text \<open>
  The specification's reading of a pattern with one wildcard: the path contains the rest
  of the pattern as a substring, compared without regard to case.
\<close>

definition non_wildcard_portion :: "string \<Rightarrow> string" where
  "non_wildcard_portion p = filter (\<lambda>c. c \<noteq> CHR ''*'') p"

definition contains_ignoring_case :: "string \<Rightarrow> string \<Rightarrow> bool" where
  "contains_ignoring_case s t \<longleftrightarrow> sublist (map canonicalize t) (map canonicalize s)"

text \<open>
  The specification's reading of the identity of a script: the source URL for an external
  script, the text for an inline one; a script matches the snapshot when some entry has
  the same identity.
\<close>

definition identity_in_snapshot :: "script list \<Rightarrow> script \<Rightarrow> bool" where
  "identity_in_snapshot snapshot sc \<longleftrightarrow>
     (if src sc \<noteq> [] then list_ex (\<lambda>initSc. src initSc = src sc) snapshot
      else list_ex (\<lambda>initSc. textContent initSc = textContent sc) snapshot)"

section \<open>A page and a router to evaluate on\<close>

text \<open>
  A page loaded from \<^verbatim>\<open>/index.php\<close>: an external script in the head, a link and an
  inline script in the body.
\<close>

definition example_browser :: browser where
  "example_browser =
     \<lparr>document =
        \<lparr>title = ''Home'',
         head = [Script \<lparr>sid = 0, src = ''/a.js'', textContent = '''', type = ''''\<rparr>],
         body = [Link \<lparr>pathname = ''/about.html'', dataset_noSpa = False, click_listeners = 0\<rparr>,
                 Script \<lparr>sid = 1, src = '''', textContent = ''init()'', type = ''''\<rparr>]\<rparr>,
      location_pathname = ''/index.php'',
      history = [\<lparr>entry_state = None, entry_title = ''Home'', entry_url = ''/index.php''\<rparr>],
      history_index = 0,
      onpopstate_set = False,
      console = [],
      next_id = 2\<rparr>"

definition example_options :: options where
  "example_options = \<lparr>routes = [''*.html''], enabled = True\<rparr>"

text \<open>The state in which the constructor leaves that browser.\<close>

definition example_state :: state where
  "example_state =
     \<lparr>document =
        \<lparr>title = ''Home'',
         head = [Script \<lparr>sid = 0, src = ''/a.js'', textContent = '''', type = ''''\<rparr>],
         body = [Link \<lparr>pathname = ''/about.html'', dataset_noSpa = False, click_listeners = 1\<rparr>,
                 Script \<lparr>sid = 1, src = '''', textContent = ''init()'', type = ''''\<rparr>]\<rparr>,
      location_pathname = ''/index.php'',
      history = [\<lparr>entry_state = None, entry_title = ''Home'', entry_url = ''/index.php''\<rparr>,
                 \<lparr>entry_state = Some \<lparr>url = Some ''/index.php''\<rparr>, entry_title = ''Home'',
                  entry_url = ''/index.php''\<rparr>],
      history_index = 1,
      onpopstate_set = True,
      console = [],
      next_id = 2,
      options = \<lparr>routes = [''*.html''], enabled = True\<rparr>,
      scriptsStore = [],
      initialScripts = [\<lparr>sid = 0, src = ''/a.js'', textContent = '''', type = ''''\<rparr>,
                        \<lparr>sid = 1, src = '''', textContent = ''init()'', type = ''''\<rparr>]\<rparr>"

text \<open>
  A page with three scripts in its head (two of them with the source of the script of
  the first page, one of these with a blank as its text) and with two scripts in its
  body, one of them inside a \<^verbatim>\<open>div\<close>; and a network that serves it at
  \<^verbatim>\<open>/about.html\<close>, a body that cannot be decoded at \<^verbatim>\<open>/binary\<close>, no
  connection at \<^verbatim>\<open>/offline\<close> and status 404 elsewhere.
\<close>

definition example_page :: html_document where
  "example_page =
     \<lparr>title = ''About'',
      head = [Script \<lparr>sid = 0, src = ''/a.js'', textContent = '' '', type = ''''\<rparr>,
              Script \<lparr>sid = 0, src = ''/a.js'', textContent = '''', type = ''''\<rparr>,
              Script \<lparr>sid = 0, src = ''/b.js'', textContent = '''', type = ''''\<rparr>],
      body = [Elem ''DIV'' [Script \<lparr>sid = 0, src = '''', textContent = ''nested()'', type = ''''\<rparr>],
              Script \<lparr>sid = 0, src = '''', textContent = ''about()'', type = ''''\<rparr>,
              Link \<lparr>pathname = ''/x.html'', dataset_noSpa = True, click_listeners = 0\<rparr>]\<rparr>"

definition example_fetch :: "string \<Rightarrow> response promise" where
  "example_fetch u =
     (if u = ''/about.html''
      then Resolved \<lparr>status = 200, statusText = ''OK'', response_text = Some example_page\<rparr>
      else if u = ''/binary''
      then Resolved \<lparr>status = 200, statusText = ''OK'', response_text = None\<rparr>
      else if u = ''/offline''
      then Rejected (TypeError ''Failed to fetch'')
      else Resolved \<lparr>status = 404, statusText = ''Not Found'', response_text = Some example_page\<rparr>)"

text \<open>The state after a navigation to \<^verbatim>\<open>/about.html\<close> from there.\<close>

definition example_state_about :: state where
  "example_state_about =
     \<lparr>document =
        \<lparr>title = ''About'',
         head = [Script \<lparr>sid = 0, src = ''/a.js'', textContent = [], type = []\<rparr>,
                 Script \<lparr>sid = 2, src = ''/a.js'', textContent = '' '', type = []\<rparr>,
                 Script \<lparr>sid = 4, src = ''/b.js'', textContent = [], type = []\<rparr>],
         body = [Elem ''DIV'' [Script \<lparr>sid = 5, src = [], textContent = ''nested()'', type = []\<rparr>],
                 Script \<lparr>sid = 7, src = [], textContent = ''about()'', type = ''text/javascript''\<rparr>,
                 Link \<lparr>pathname = ''/x.html'', dataset_noSpa = True, click_listeners = 0\<rparr>]\<rparr>,
      location_pathname = ''/about.html'',
      history = [\<lparr>entry_state = None, entry_title = ''Home'', entry_url = ''/index.php''\<rparr>,
                 \<lparr>entry_state = Some \<lparr>url = Some ''/index.php''\<rparr>, entry_title = ''Home'',
                  entry_url = ''/index.php''\<rparr>,
                 \<lparr>entry_state = Some \<lparr>url = Some ''/about.html''\<rparr>, entry_title = ''About'',
                  entry_url = ''/about.html''\<rparr>],
      history_index = 2,
      onpopstate_set = True,
      console = [],
      next_id = 8,
      options = \<lparr>routes = [''*.html''], enabled = True\<rparr>,
      scriptsStore = [\<lparr>sid = 2, src = ''/a.js'', textContent = '' '', type = []\<rparr>,
                      \<lparr>sid = 4, src = ''/b.js'', textContent = [], type = []\<rparr>],
      initialScripts = [\<lparr>sid = 0, src = ''/a.js'', textContent = [], type = []\<rparr>,
                        \<lparr>sid = 1, src = [], textContent = ''init()'', type = []\<rparr>]\<rparr>"

text \<open>
  The state after \<^verbatim>\<open>clear\<close> there, and the state after a second navigation to
  the same page.
\<close>

definition example_state_cleared :: state where
  "example_state_cleared =
     example_state_about
       \<lparr>document := (document example_state_about)
          \<lparr>head := [Script \<lparr>sid = 0, src = ''/a.js'', textContent = [], type = []\<rparr>]\<rparr>\<rparr>"

definition example_state_twice :: state where
  "example_state_twice =
     \<lparr>document =
        \<lparr>title = ''About'',
         head = [Script \<lparr>sid = 0, src = ''/a.js'', textContent = [], type = []\<rparr>,
                 Script \<lparr>sid = 8, src = ''/a.js'', textContent = '' '', type = []\<rparr>,
                 Script \<lparr>sid = 10, src = ''/b.js'', textContent = [], type = []\<rparr>],
         body = [Elem ''DIV'' [Script \<lparr>sid = 11, src = [], textContent = ''nested()'', type = []\<rparr>],
                 Script \<lparr>sid = 13, src = [], textContent = ''about()'', type = ''text/javascript''\<rparr>,
                 Link \<lparr>pathname = ''/x.html'', dataset_noSpa = True, click_listeners = 0\<rparr>]\<rparr>,
      location_pathname = ''/about.html'',
      history = [\<lparr>entry_state = None, entry_title = ''Home'', entry_url = ''/index.php''\<rparr>,
                 \<lparr>entry_state = Some \<lparr>url = Some ''/index.php''\<rparr>, entry_title = ''Home'',
                  entry_url = ''/index.php''\<rparr>,
                 \<lparr>entry_state = Some \<lparr>url = Some ''/about.html''\<rparr>, entry_title = ''About'',
                  entry_url = ''/about.html''\<rparr>,
                 \<lparr>entry_state = Some \<lparr>url = Some ''/about.html''\<rparr>, entry_title = ''About'',
                  entry_url = ''/about.html''\<rparr>],
      history_index = 3,
      onpopstate_set = True,
      console = [],
      next_id = 14,
      options = \<lparr>routes = [''*.html''], enabled = True\<rparr>,
      scriptsStore = [\<lparr>sid = 2, src = ''/a.js'', textContent = '' '', type = []\<rparr>,
                      \<lparr>sid = 4, src = ''/b.js'', textContent = [], type = []\<rparr>,
                      \<lparr>sid = 8, src = ''/a.js'', textContent = '' '', type = []\<rparr>,
                      \<lparr>sid = 10, src = ''/b.js'', textContent = [], type = []\<rparr>],
      initialScripts = [\<lparr>sid = 0, src = ''/a.js'', textContent = [], type = []\<rparr>,
                        \<lparr>sid = 1, src = [], textContent = ''init()'', type = []\<rparr>]\<rparr>"

text \<open>
  The live document and the parsed one in that navigation when the scripts are about to be
  processed.
\<close>

definition example_state_loaded :: state where
  "example_state_loaded =
     example_state
       \<lparr>document :=
          \<lparr>title = ''About'',
           head = [Script \<lparr>sid = 0, src = ''/a.js'', textContent = [], type = []\<rparr>],
           body = [Elem ''DIV'' [Script \<lparr>sid = 5, src = [], textContent = ''nested()'', type = []\<rparr>],
                   Script \<lparr>sid = 6, src = [], textContent = ''about()'', type = []\<rparr>,
                   Link \<lparr>pathname = ''/x.html'', dataset_noSpa = True, click_listeners = 0\<rparr>]\<rparr>,
        next_id := 7\<rparr>"

definition example_page_loaded :: html_document where
  "example_page_loaded =
     \<lparr>title = ''About'',
      head = [Script \<lparr>sid = 2, src = ''/a.js'', textContent = '' '', type = []\<rparr>,
              Script \<lparr>sid = 3, src = ''/a.js'', textContent = [], type = []\<rparr>,
              Script \<lparr>sid = 4, src = ''/b.js'', textContent = [], type = []\<rparr>],
      body = []\<rparr>"

section \<open>Properties\<close>

subsection \<open>Patterns\<close>

lemma replace_star_one:
  "count_list p (CHR ''*'') = 1 \<Longrightarrow> replace_star p = filter (\<lambda>c. c \<noteq> CHR ''*'') p"
proof (induction p)
  case Nil
  then show ?case by simp
next
  case (Cons c cs)
  show ?case
  proof (cases "c = CHR ''*''")
    case True
    with Cons.prems have "count_list cs (CHR ''*'') = 0" by simp
    then have "CHR ''*'' \<notin> set cs" by (simp add: count_list_0_iff)
    then have "filter (\<lambda>c. c \<noteq> CHR ''*'') cs = cs" by (induction cs) auto
    with True show ?thesis by simp
  next
    case False
    with Cons show ?thesis by simp
  qed
qed

lemma compile_literal:
  "\<forall>c\<in>set t. \<not> syntax_character c \<Longrightarrow> compile t = Some (map Lit t)"
proof (induction t)
  case Nil
  then show ?case by simp
next
  case (Cons c cs)
  then have "\<not> syntax_character c" by simp
  then have "c \<noteq> CHR ''.''" by (auto simp: syntax_character_def)
  with Cons show ?case by simp
qed

lemma matches_here_literal:
  "matches_here (map Lit t) s \<longleftrightarrow> prefix (map canonicalize t) (map canonicalize s)"
  by (induction "map Lit t" s arbitrary: t rule: matches_here.induct) auto

lemma regex_search_literal:
  "regex_search (map Lit t) s \<longleftrightarrow> sublist (map canonicalize t) (map canonicalize s)"
proof (induction s)
  case Nil
  show ?case by (cases t) simp_all
next
  case (Cons c cs)
  have "regex_search (map Lit t) (c # cs)
        \<longleftrightarrow> matches_here (map Lit t) (c # cs) \<or> regex_search (map Lit t) cs"
    by simp
  also have "\<dots> \<longleftrightarrow> prefix (map canonicalize t) (map canonicalize (c # cs))
                    \<or> sublist (map canonicalize t) (map canonicalize cs)"
    using Cons.IH matches_here_literal by simp
  also have "\<dots> \<longleftrightarrow> sublist (map canonicalize t) (map canonicalize (c # cs))"
    by (simp add: sublist_Cons_right)
  finally show ?case .
qed

lemma findIndex_Some:
  "findIndex p xs = Some i \<Longrightarrow> - 1 \<le> i \<and> (i \<noteq> - 1 \<longleftrightarrow> (\<exists>x\<in>set xs. p x = Some True))"
proof (induction xs arbitrary: i)
  case Nil
  then show ?case by simp
next
  case (Cons x xs)
  then show ?case
    by (auto split: option.splits bool.splits if_splits)
qed

lemma not_int_zero: "NOT (i::int) \<noteq> 0 \<longleftrightarrow> i \<noteq> - 1"
  by (simp add: not_int_def)

lemma checkRoutes_Some:
  "checkRoutes l rs = Some b \<Longrightarrow>
   b \<longleftrightarrow> (\<exists>r\<in>set rs. RegExp_test (replace_star r) (pathname l) = Some True) \<and> \<not> dataset_noSpa l"
  unfolding checkRoutes_def
  by (auto simp: not_int_zero split: option.splits dest!: findIndex_Some)

lemma checkRoutes_single:
  "checkRoutes l [p] =
   map_option (\<lambda>m. m \<and> \<not> dataset_noSpa l) (RegExp_test (replace_star p) (pathname l))"
  unfolding checkRoutes_def
  by (auto simp: not_int_zero split: option.splits bool.splits)

lemmas route_eval = checkRoutes_def RegExp_test_def syntax_character_def canonicalize_def

text \<open>
  C2, as the code has it. The rest of the pattern is the source of a regular expression:
  when it has no syntax character, a link without the opt-out marker is eligible for the
  one pattern exactly when its pathname contains the rest of the pattern, compared
  without regard to case. The pattern \<^verbatim>\<open>*.html\<close> makes \<^verbatim>\<open>/about.html\<close>
  eligible and \<^verbatim>\<open>/about.php\<close> not eligible.
\<close>

theorem C2_literal_pattern:
  "(count_list p (CHR ''*'') = 1
      \<and> (\<forall>c\<in>set (non_wildcard_portion p). \<not> syntax_character c)
      \<and> \<not> dataset_noSpa l
    \<longrightarrow> checkRoutes l [p] = Some (contains_ignoring_case (pathname l) (non_wildcard_portion p)))
   \<and> checkRoutes \<lparr>pathname = ''/about.html'', dataset_noSpa = False, click_listeners = 0\<rparr>
        [''*.html''] = Some True
   \<and> checkRoutes \<lparr>pathname = ''/about.php'', dataset_noSpa = False, click_listeners = 0\<rparr>
        [''*.html''] = Some False"
proof (intro conjI impI)
  assume h: "count_list p (CHR ''*'') = 1
      \<and> (\<forall>c\<in>set (non_wildcard_portion p). \<not> syntax_character c)
      \<and> \<not> dataset_noSpa l"
  then have r: "replace_star p = non_wildcard_portion p"
    by (simp add: replace_star_one non_wildcard_portion_def)
  from h have "compile (non_wildcard_portion p) = Some (map Lit (non_wildcard_portion p))"
    by (simp add: compile_literal)
  with h r show "checkRoutes l [p]
      = Some (contains_ignoring_case (pathname l) (non_wildcard_portion p))"
    by (simp add: checkRoutes_single RegExp_test_def regex_search_literal
        contains_ignoring_case_def)
next
  show "checkRoutes \<lparr>pathname = ''/about.html'', dataset_noSpa = False, click_listeners = 0\<rparr>
          [''*.html''] = Some True"
    by (simp add: route_eval)
next
  show "checkRoutes \<lparr>pathname = ''/about.php'', dataset_noSpa = False, click_listeners = 0\<rparr>
          [''*.html''] = Some False"
    by (simp add: route_eval)
qed

theorem C2_literal_pattern_witness:
  "count_list ''/site/*'' (CHR ''*'') = 1
   \<and> list_all (\<lambda>c. \<not> syntax_character c) (non_wildcard_portion ''/site/*'')
   \<and> \<not> dataset_noSpa \<lparr>pathname = ''/SITE/x'', dataset_noSpa = False, click_listeners = 0\<rparr>
   \<and> checkRoutes \<lparr>pathname = ''/SITE/x'', dataset_noSpa = False, click_listeners = 0\<rparr>
        [''/site/*'']
       = Some (contains_ignoring_case ''/SITE/x'' (non_wildcard_portion ''/site/*''))
   \<and> contains_ignoring_case ''/SITE/x'' (non_wildcard_portion ''/site/*'')"
  using C2_literal_pattern [of "''/site/*''"
      "\<lparr>pathname = ''/SITE/x'', dataset_noSpa = False, click_listeners = 0\<rparr>"]
  by (simp add: non_wildcard_portion_def syntax_character_def contains_ignoring_case_def
      canonicalize_def sublist_Cons_right)

text \<open>
  C2 as the specification states it fails: \<^verbatim>\<open>.\<close> in a pattern stands for any
  character, so \<^verbatim>\<open>*.html\<close> makes the path \<^verbatim>\<open>/abouthtml\<close> eligible, which does
  not contain \<^verbatim>\<open>.html\<close>.
\<close>

theorem C2_counterexample:
  "count_list ''*.html'' (CHR ''*'') = 1
   \<and> checkRoutes \<lparr>pathname = ''/abouthtml'', dataset_noSpa = False, click_listeners = 0\<rparr>
        [''*.html''] = Some True
   \<and> \<not> contains_ignoring_case ''/abouthtml'' (non_wildcard_portion ''*.html'')"
  by (simp add: route_eval non_wildcard_portion_def contains_ignoring_case_def
      sublist_Cons_right)

subsection \<open>The console is written and never read\<close>

lemma parseHTML_console:
  "parseHTML p (s\<lparr>console := c\<rparr>) = apsnd (\<lambda>s. s\<lparr>console := c\<rparr>) (parseHTML p s)"
  by (simp add: parseHTML_def split: page.splits)

lemma clear_console:
  "clear (s\<lparr>console := c\<rparr>) = map_sum (set_console c) (\<lambda>s. s\<lparr>console := c\<rparr>) (clear s)"
  by (simp add: clear_def)

lemma loadHTML_console:
  "loadHTML h (s\<lparr>console := c\<rparr>) = apfst (\<lambda>s. s\<lparr>console := c\<rparr>) (loadHTML h s)"
  by (simp add: loadHTML_def)

lemma isNotInitialScript_console [simp]:
  "isNotInitialScript (s\<lparr>console := c\<rparr>) sc = isNotInitialScript s sc"
  by (simp add: isNotInitialScript_def)

lemma loadHeadScripts_console:
  "loadHeadScripts sc (s\<lparr>console := c\<rparr>, h)
   = map_sum (set_console c) (apfst (\<lambda>s. s\<lparr>console := c\<rparr>)) (loadHeadScripts sc (s, h))"
  by (simp add: loadHeadScripts_def)

lemma loadBodyScripts_console:
  "loadBodyScripts sc (s\<lparr>console := c\<rparr>, h)
   = map_sum (set_console c) (apfst (\<lambda>s. s\<lparr>console := c\<rparr>)) (loadBodyScripts sc (s, h))"
  by (simp add: loadBodyScripts_def Let_def)

lemma runScripts_callback_console:
  "runScripts_callback sc (s\<lparr>console := c\<rparr>, h)
   = map_sum (set_console c) (apfst (\<lambda>s. s\<lparr>console := c\<rparr>)) (runScripts_callback sc (s, h))"
  by (simp add: runScripts_callback_def loadHeadScripts_console loadBodyScripts_console
      split: option.splits)

lemma runScripts_console:
  "runScripts scs (s\<lparr>console := c\<rparr>, h)
   = map_sum (set_console c) (apfst (\<lambda>s. s\<lparr>console := c\<rparr>)) (runScripts scs (s, h))"
proof (induction scs arbitrary: s h)
  case Nil
  show ?case by simp
next
  case (Cons sc scs)
  show ?case
  proof (cases "runScripts_callback sc (s, h)")
    case (Inl f)
    then show ?thesis by (simp add: runScripts_callback_console)
  next
    case (Inr r)
    obtain s' h' where r: "r = (s', h')" by (cases r)
    with Inr Cons.IH [of s' h'] show ?thesis
      by (simp add: runScripts_callback_console)
  qed
qed

lemma enableSPA_console:
  "enableSPA (s\<lparr>console := c\<rparr>) = map_option (\<lambda>s. s\<lparr>console := c\<rparr>) (enableSPA s)"
  by (simp add: enableSPA_def get_routes_def split: option.splits)

lemma pushState_console:
  "pushState st t u (s\<lparr>console := c\<rparr>) = (pushState st t u s)\<lparr>console := c\<rparr>"
  by (simp add: pushState_def)

lemma navigate_then_console:
  "navigate_then u p (s\<lparr>console := c\<rparr>)
   = map_sum (set_console c) (\<lambda>s. s\<lparr>console := c\<rparr>) (navigate_then u p s)"
proof -
  obtain html s1 where p: "parseHTML p s = (html, s1)" by (cases "parseHTML p s")
  show ?thesis
  proof (cases "clear s1")
    case (Inl f)
    with p show ?thesis
      by (simp add: navigate_then_def parseHTML_console clear_console)
  next
    case (Inr s2)
    obtain s3 html3 where l: "loadHTML html s2 = (s3, html3)" by (cases "loadHTML html s2")
    then have d: "document (s3\<lparr>console := c\<rparr>) = document s3" by simp
    show ?thesis
    proof (cases "runScripts (document_scripts (document s3) @ document_scripts html3) (s3, html3)")
      case (Inl f)
      with p Inr l show ?thesis
        by (simp add: navigate_then_def parseHTML_console clear_console loadHTML_console
            runScripts_console)
    next
      case r: (Inr r4)
      obtain s4 html4 where r4: "r4 = (s4, html4)" by (cases r4)
      show ?thesis
      proof (cases "enableSPA s4")
        case None
        with p Inr l r r4 show ?thesis
          by (simp add: navigate_then_def parseHTML_console clear_console loadHTML_console
              runScripts_console enableSPA_console)
      next
        case (Some s5)
        with p Inr l r r4 show ?thesis
          by (simp add: navigate_then_def parseHTML_console clear_console loadHTML_console
              runScripts_console enableSPA_console pushState_console)
      qed
    qed
  qed
qed

lemma forget_console_set:
  "forget_console (map_sum (set_console c) (\<lambda>s. s\<lparr>console := c\<rparr>) r) = forget_console r"
proof (cases r)
  case (Inl f)
  then show ?thesis by (cases f) (simp_all add: forget_console_def)
next
  case (Inr s)
  then show ?thesis by (simp add: forget_console_def)
qed

lemma navigate_console:
  "forget_console (navigate fetch a (s\<lparr>console := c\<rparr>)) = forget_console (navigate fetch a s)"
proof (cases "getUrl a")
  case (Inl e)
  then show ?thesis by (simp add: navigate_def forget_console_def)
next
  case (Inr u)
  show ?thesis
  proof (cases "getPage fetch u")
    case (Rejected e)
    with Inr show ?thesis
      by (simp add: navigate_def forget_console_def navigate_catch_def console_error_def)
  next
    case (Resolved p)
    show ?thesis
    proof (cases "navigate_then u p s")
      case (Inl f)
      with Inr Resolved show ?thesis
        by (cases f)
          (simp_all add: navigate_def navigate_then_console forget_console_def
            navigate_catch_def console_error_def)
    next
      case r: (Inr s')
      with Inr Resolved show ?thesis
        by (simp add: navigate_def navigate_then_console forget_console_def)
    qed
  qed
qed

subsection \<open>What the rendering leaves as it is\<close>

lemma untouched_refl [simp]: "untouched s s"
  by (simp add: untouched_def)

lemma untouched_trans [trans]: "untouched s s' \<Longrightarrow> untouched s' s'' \<Longrightarrow> untouched s s''"
  by (simp add: untouched_def)

lemma parseHTML_untouched: "parseHTML p s = (h, s') \<Longrightarrow> untouched s s'"
  by (auto simp: parseHTML_def untouched_def split: page.splits)

lemma clear_untouched:
  "clear s = Inr s' \<Longrightarrow> untouched s s'"
  "clear s = Inl (Throw e s') \<Longrightarrow> untouched s s'"
  by (auto simp: clear_def untouched_def split: if_splits)

lemma clear_not_outside [simp]: "clear s \<noteq> Inl OutsideModel"
  by (simp add: clear_def)

lemma loadHTML_untouched: "loadHTML h s = (s', h') \<Longrightarrow> untouched s s'"
  by (auto simp: loadHTML_def untouched_def)

lemma loadHeadScripts_untouched:
  "loadHeadScripts sc (s, h) = Inr (s', h') \<Longrightarrow> untouched s s'"
  "loadHeadScripts sc (s, h) = Inl (Throw e s') \<Longrightarrow> untouched s s'"
  by (auto simp: loadHeadScripts_def untouched_def split: if_splits)

lemma loadBodyScripts_untouched:
  "loadBodyScripts sc (s, h) = Inr (s', h') \<Longrightarrow> untouched s s'"
  "loadBodyScripts sc (s, h) = Inl (Throw e s') \<Longrightarrow> untouched s s'"
  by (auto simp: loadBodyScripts_def Let_def untouched_def split: if_splits)

lemma loadHeadScripts_not_outside [simp]: "loadHeadScripts sc r \<noteq> Inl OutsideModel"
  by (cases r) (simp add: loadHeadScripts_def)

lemma loadBodyScripts_not_outside [simp]: "loadBodyScripts sc r \<noteq> Inl OutsideModel"
  by (cases r) (simp add: loadBodyScripts_def Let_def)

lemma runScripts_callback_cases:
  "runScripts_callback sc (s, h) = loadHeadScripts sc (s, h)
   \<or> runScripts_callback sc (s, h) = loadBodyScripts sc (s, h)
   \<or> runScripts_callback sc (s, h) = Inr (s, h)
   \<or> runScripts_callback sc (s, h) = Inl (Throw (cannot_read ''null'' ''tagName'') s)"
  by (simp add: runScripts_callback_def split: option.splits)

lemma runScripts_callback_untouched:
  "runScripts_callback sc (s, h) = Inr (s', h') \<Longrightarrow> untouched s s'"
  "runScripts_callback sc (s, h) = Inl (Throw e s') \<Longrightarrow> untouched s s'"
  using runScripts_callback_cases [of sc s h]
  by (auto dest: loadHeadScripts_untouched [OF sym] loadBodyScripts_untouched [OF sym])

lemma runScripts_callback_not_outside [simp]: "runScripts_callback sc r \<noteq> Inl OutsideModel"
proof (cases r)
  case (Pair s h)
  with runScripts_callback_cases [of sc s h] show ?thesis by auto
qed

lemma runScripts_not_outside [simp]: "runScripts scs r \<noteq> Inl OutsideModel"
  by (induction scs arbitrary: r) (auto split: sum.splits)

lemma runScripts_untouched:
  "(runScripts scs (s, h) = Inr (s', h') \<longrightarrow> untouched s s')
   \<and> (runScripts scs (s, h) = Inl (Throw e s') \<longrightarrow> untouched s s')"
proof (induction scs arbitrary: s h)
  case Nil
  show ?case by simp
next
  case (Cons sc scs)
  show ?case
  proof (cases "runScripts_callback sc (s, h)")
    case (Inl f)
    then show ?thesis
      using runScripts_callback_untouched(2) [of sc s h e s'] by auto
  next
    case (Inr r)
    obtain s1 h1 where r: "r = (s1, h1)" by (cases r)
    with Inr have "untouched s s1" by (simp add: runScripts_callback_untouched(1))
    with Cons.IH [of s1 h1] Inr r show ?thesis
      by (auto intro: untouched_trans)
  qed
qed

lemma enableSPA_untouched: "enableSPA s = Some s' \<Longrightarrow> untouched s s'"
  by (auto simp: enableSPA_def untouched_def split: option.splits)

lemma navigate_then_Inr:
  assumes "navigate_then u p s = Inr s'"
  obtains html s1 s2 s3 html3 s4 html4 s5 where
    "parseHTML p s = (html, s1)" and "clear s1 = Inr s2" and "loadHTML html s2 = (s3, html3)"
    and "runScripts (document_scripts (document s3) @ document_scripts html3) (s3, html3)
         = Inr (s4, html4)"
    and "enableSPA s4 = Some s5"
    and "s' = pushState \<lparr>url = Some u\<rparr> (title (document s5)) u s5"
proof -
  obtain html s1 where p: "parseHTML p s = (html, s1)" by (cases "parseHTML p s")
  show thesis
  proof (cases "clear s1")
    case (Inl f)
    with assms p show thesis by (simp add: navigate_then_def)
  next
    case c: (Inr s2)
    obtain s3 html3 where l: "loadHTML html s2 = (s3, html3)" by (cases "loadHTML html s2")
    show thesis
    proof (cases "runScripts (document_scripts (document s3) @ document_scripts html3) (s3, html3)")
      case (Inl f)
      with assms p c l show thesis by (simp add: navigate_then_def)
    next
      case r: (Inr r4)
      obtain s4 html4 where r4: "r4 = (s4, html4)" by (cases r4)
      show thesis
      proof (cases "enableSPA s4")
        case None
        with assms p c l r r4 show thesis by (simp add: navigate_then_def)
      next
        case (Some s5)
        with assms p c l r r4 have "s' = pushState \<lparr>url = Some u\<rparr> (title (document s5)) u s5"
          by (simp add: navigate_then_def)
        with p c l r r4 Some that show thesis by blast
      qed
    qed
  qed
qed

lemma navigate_then_history:
  assumes "navigate_then u p s = Inr s'"
  shows "history s' = take (Suc (history_index s)) (history s)
           @ [\<lparr>entry_state = Some \<lparr>url = Some u\<rparr>, entry_title = title (document s'),
               entry_url = u\<rparr>]"
proof -
  from assms obtain html s1 s2 s3 html3 s4 html4 s5 where
    p: "parseHTML p s = (html, s1)" and c: "clear s1 = Inr s2"
    and l: "loadHTML html s2 = (s3, html3)"
    and r: "runScripts (document_scripts (document s3) @ document_scripts html3) (s3, html3)
         = Inr (s4, html4)"
    and e: "enableSPA s4 = Some s5"
    and s': "s' = pushState \<lparr>url = Some u\<rparr> (title (document s5)) u s5"
    by (rule navigate_then_Inr)
  have "untouched s s1" using p by (rule parseHTML_untouched)
  also have "untouched s1 s2" using c by (rule clear_untouched(1))
  also have "untouched s2 s3" using l by (rule loadHTML_untouched)
  also have "untouched s3 s4" using r runScripts_untouched by blast
  also have "untouched s4 s5" using e by (rule enableSPA_untouched)
  finally have "history s5 = history s" "history_index s5 = history_index s"
    by (simp_all add: untouched_def)
  with s' show ?thesis by (simp add: pushState_def)
qed

subsection \<open>Wiring the links\<close>

lemma links_of_map_links: "links_of (map_links f ns) = map f (links_of ns)"
  by (induction f ns rule: map_links.induct) simp_all

lemma scripts_of_map_links [simp]: "scripts_of (map_links f ns) = scripts_of ns"
  by (induction f ns rule: map_links.induct) simp_all

lemma those_map_Some:
  "those (map f xs) = Some ys \<Longrightarrow> x \<in> set xs \<Longrightarrow> \<exists>y. f x = Some y"
  by (induction xs arbitrary: ys) (auto split: option.splits)

lemma enableSPA_link_eq:
  assumes "checkRoutes l rs = Some b"
  shows "enableSPA_link rs l
         = (if list_ex (\<lambda>r. RegExp_test (replace_star r) (pathname l) = Some True) rs
               \<and> \<not> dataset_noSpa l
            then l\<lparr>click_listeners := Suc (click_listeners l)\<rparr> else l)"
  using checkRoutes_Some [OF assms] assms
  by (auto simp: enableSPA_link_def addEventListener_def list_ex_iff)

text \<open>
  C1, as the code has it: \<^verbatim>\<open>enableSPA\<close> decides on the link's own pathname. A
  link of the document gets a listener exactly when some pattern matches the pathname of
  the link and the link has no opt-out marker, and the path of the current document
  plays no part: with another location the outcome is the same.
\<close>

theorem C1_link_pathname:
  "(enableSPA s = Some s' \<longrightarrow>
      document_links (document s')
      = map (\<lambda>l. if list_ex (\<lambda>r. RegExp_test (replace_star r) (pathname l) = Some True)
                       (get_routes s)
                     \<and> \<not> dataset_noSpa l
                  then l\<lparr>click_listeners := Suc (click_listeners l)\<rparr> else l)
          (document_links (document s)))
   \<and> enableSPA (s\<lparr>location_pathname := p\<rparr>)
       = map_option (\<lambda>s'. s'\<lparr>location_pathname := p\<rparr>) (enableSPA s)"
proof (intro conjI impI)
  assume e: "enableSPA s = Some s'"
  then obtain passed where
    t: "those (map (\<lambda>l. checkRoutes l (get_routes s)) (document_links (document s))) = Some passed"
    by (auto simp: enableSPA_def split: option.splits)
  have "map (enableSPA_link (get_routes s)) (document_links (document s))
        = map (\<lambda>l. if list_ex (\<lambda>r. RegExp_test (replace_star r) (pathname l) = Some True)
                       (get_routes s)
                     \<and> \<not> dataset_noSpa l
                  then l\<lparr>click_listeners := Suc (click_listeners l)\<rparr> else l)
          (document_links (document s))"
  proof (rule map_cong [OF refl])
    fix l assume "l \<in> set (document_links (document s))"
    with t obtain b where "checkRoutes l (get_routes s) = Some b"
      using those_map_Some by fastforce
    then show "enableSPA_link (get_routes s) l
        = (if list_ex (\<lambda>r. RegExp_test (replace_star r) (pathname l) = Some True) (get_routes s)
              \<and> \<not> dataset_noSpa l
           then l\<lparr>click_listeners := Suc (click_listeners l)\<rparr> else l)"
      by (rule enableSPA_link_eq)
  qed
  moreover from e t have "document_links (document s')
      = map (enableSPA_link (get_routes s)) (document_links (document s))"
    by (auto simp: enableSPA_def document_links_def links_of_map_links)
  ultimately show "document_links (document s')
      = map (\<lambda>l. if list_ex (\<lambda>r. RegExp_test (replace_star r) (pathname l) = Some True)
                       (get_routes s)
                     \<and> \<not> dataset_noSpa l
                  then l\<lparr>click_listeners := Suc (click_listeners l)\<rparr> else l)
          (document_links (document s))"
    by simp
next
  show "enableSPA (s\<lparr>location_pathname := p\<rparr>)
       = map_option (\<lambda>s'. s'\<lparr>location_pathname := p\<rparr>) (enableSPA s)"
    by (simp add: enableSPA_def get_routes_def split: option.splits)
qed

lemma checkRoutes_about:
  "checkRoutes \<lparr>pathname = ''/about.html'', dataset_noSpa = False, click_listeners = n\<rparr> [''*.html'']
   = Some True"
  by (simp add: route_eval)

lemma enableSPA_example:
  "enableSPA example_state
   = Some (example_state\<lparr>document := (document example_state)
        \<lparr>body := [Link \<lparr>pathname = ''/about.html'', dataset_noSpa = False, click_listeners = 2\<rparr>,
                  Script \<lparr>sid = 1, src = [], textContent = ''init()'', type = []\<rparr>]\<rparr>\<rparr>)"
  by (simp add: example_state_def enableSPA_def get_routes_def document_links_def
      enableSPA_link_def addEventListener_def checkRoutes_about)

theorem C1_link_pathname_witness:
  "enableSPA example_state
   = Some (example_state\<lparr>document := (document example_state)
        \<lparr>body := [Link \<lparr>pathname = ''/about.html'', dataset_noSpa = False, click_listeners = 2\<rparr>,
                  Script \<lparr>sid = 1, src = [], textContent = ''init()'', type = []\<rparr>]\<rparr>\<rparr>)
   \<and> document_links (document (example_state\<lparr>document := (document example_state)
        \<lparr>body := [Link \<lparr>pathname = ''/about.html'', dataset_noSpa = False, click_listeners = 2\<rparr>,
                  Script \<lparr>sid = 1, src = [], textContent = ''init()'', type = []\<rparr>]\<rparr>\<rparr>))
      = map (\<lambda>l. if list_ex (\<lambda>r. RegExp_test (replace_star r) (pathname l) = Some True)
                       (get_routes example_state)
                     \<and> \<not> dataset_noSpa l
                  then l\<lparr>click_listeners := Suc (click_listeners l)\<rparr> else l)
          (document_links (document example_state))"
  using C1_link_pathname [of example_state
      "example_state\<lparr>document := (document example_state)
        \<lparr>body := [Link \<lparr>pathname = ''/about.html'', dataset_noSpa = False, click_listeners = 2\<rparr>,
                  Script \<lparr>sid = 1, src = [], textContent = ''init()'', type = []\<rparr>]\<rparr>\<rparr>"]
    enableSPA_example
  by blast

lemma constructor_example: "constructor example_options example_browser = Some example_state"
  by (simp add: constructor_def initialize_def addRouteListener_def pushState_def
      browser.extend_def document_scripts_def example_state_def example_browser_def
      example_options_def enableSPA_def get_routes_def document_links_def
      enableSPA_link_def addEventListener_def checkRoutes_about)


text \<open>
  C1 as the specification states it fails: on the page \<^verbatim>\<open>/index.php\<close> with the
  pattern \<^verbatim>\<open>*.html\<close>, the constructor adds a listener to the link to
  \<^verbatim>\<open>/about.html\<close>, which matching against the path of the document would not make
  eligible.
\<close>

theorem C1_counterexample:
  "constructor example_options example_browser = Some example_state
   \<and> document_links (document example_browser)
       = [\<lparr>pathname = ''/about.html'', dataset_noSpa = False, click_listeners = 0\<rparr>]
   \<and> document_links (document example_state)
       = [\<lparr>pathname = ''/about.html'', dataset_noSpa = False, click_listeners = 1\<rparr>]
   \<and> eligible_by_document_path (location_pathname example_browser)
        \<lparr>pathname = ''/about.html'', dataset_noSpa = False, click_listeners = 0\<rparr>
        (routes example_options) = Some False"
proof -
  have "eligible_by_document_path (location_pathname example_browser)
        \<lparr>pathname = ''/about.html'', dataset_noSpa = False, click_listeners = 0\<rparr>
        (routes example_options) = Some False"
    by (simp add: eligible_by_document_path_def example_browser_def example_options_def route_eval)
  moreover have "document_links (document example_browser)
       = [\<lparr>pathname = ''/about.html'', dataset_noSpa = False, click_listeners = 0\<rparr>]"
    by (simp add: example_browser_def document_links_def)
  moreover have "document_links (document example_state)
       = [\<lparr>pathname = ''/about.html'', dataset_noSpa = False, click_listeners = 1\<rparr>]"
    by (simp add: example_state_def document_links_def)
  ultimately show ?thesis using constructor_example by blast
qed

subsection \<open>Fetching, navigating and the history\<close>

lemma navigate_example:
  "navigate example_fetch (Path ''/about.html'') example_state = Inr example_state_about"
  by code_simp

text \<open>
  C10: when the fetch resolves with a response whose status is in 200..299 and the
  decoding of its body fails, \<^verbatim>\<open>getPage\<close> resolves with the response object
  itself. \<^verbatim>\<open>getPage\<close> rejects exactly when the fetch rejects (a network error: the
  error of the fetch is passed on) or the status is outside 200..299, and in that case
  the error carries the status code of the response.
\<close>

theorem C10_getPage:
  "(fetch u = Resolved r \<and> ok r \<and> response_text r = None
      \<longrightarrow> getPage fetch u = Resolved (ResponseObject r))
   \<and> ((\<exists>e. getPage fetch u = Rejected e)
        \<longleftrightarrow> (\<exists>e. fetch u = Rejected e) \<or> (\<exists>r. fetch u = Resolved r \<and> \<not> ok r))
   \<and> (fetch u = Resolved r \<and> \<not> ok r
      \<longrightarrow> getPage fetch u = Rejected (Error (statusText r) (status r) r)
          \<and> error_status (Error (statusText r) (status r) r) = Some (status r))
   \<and> (fetch u = Rejected e \<longrightarrow> getPage fetch u = Rejected e)"
  by (cases "fetch u") (auto simp: getPage_def split: option.splits)

theorem C10_getPage_witness:
  "getPage example_fetch ''/binary''
     = Resolved (ResponseObject \<lparr>status = 200, statusText = ''OK'', response_text = None\<rparr>)
   \<and> getPage example_fetch ''/missing.html''
     = Rejected (Error ''Not Found'' 404
         \<lparr>status = 404, statusText = ''Not Found'', response_text = Some example_page\<rparr>)
   \<and> getPage example_fetch ''/offline'' = Rejected (TypeError ''Failed to fetch'')"
proof -
  have b: "example_fetch ''/binary''
      = Resolved \<lparr>status = 200, statusText = ''OK'', response_text = None\<rparr>"
    by (simp add: example_fetch_def)
  have m: "example_fetch ''/missing.html''
      = Resolved \<lparr>status = 404, statusText = ''Not Found'', response_text = Some example_page\<rparr>"
    by (simp add: example_fetch_def)
  have f: "example_fetch ''/offline'' = Rejected (TypeError ''Failed to fetch'')"
    by (simp add: example_fetch_def)
  from C10_getPage [of example_fetch "''/binary''"
      "\<lparr>status = 200, statusText = ''OK'', response_text = None\<rparr>"] b
  have 1: "getPage example_fetch ''/binary''
     = Resolved (ResponseObject \<lparr>status = 200, statusText = ''OK'', response_text = None\<rparr>)"
    by (simp add: ok_def)
  from C10_getPage [of example_fetch "''/missing.html''"
      "\<lparr>status = 404, statusText = ''Not Found'', response_text = Some example_page\<rparr>"] m
  have 2: "getPage example_fetch ''/missing.html''
     = Rejected (Error ''Not Found'' 404
         \<lparr>status = 404, statusText = ''Not Found'', response_text = Some example_page\<rparr>)"
    by (simp add: ok_def)
  from C10_getPage [of example_fetch "''/offline''" _ "TypeError ''Failed to fetch''"] f
  have 3: "getPage example_fetch ''/offline'' = Rejected (TypeError ''Failed to fetch'')"
    by simp
  from 1 2 3 show ?thesis by blast
qed

text \<open>
  C6, as the code has it: the listener is not guarded. For an event without a state, or
  with a state that has no \<^verbatim>\<open>url\<close>, reading the missing value throws a TypeError
  out of the listener; the state is the one before the event (no fetch, no change of the
  document or of the history, nothing logged).
\<close>

theorem C6_popstate_unguarded:
  "onpopstate fetch None s = Inl (Throw (cannot_read ''null'' ''url'') s)
   \<and> onpopstate fetch (Some \<lparr>url = None\<rparr>) s = Inl (Throw (cannot_read ''undefined'' ''target'') s)"
  by (simp add: onpopstate_def navigate_def)

text \<open>
  C6 as the specification states it fails: with the router's listener set, a popstate
  event without a state ends in a thrown TypeError, neither in the unchanged state nor
  in a logged line.
\<close>

theorem C6_counterexample:
  "onpopstate_set example_state
   \<and> popstate example_fetch None example_state
     = Inl (Throw (TypeError (''Cannot read properties of null (reading '' @ [CHR 0x27] @ ''url''
              @ [CHR 0x27] @ '')'')) example_state)"
  by (simp add: popstate_def onpopstate_def cannot_read_def example_state_def)

text \<open>
  C5, as the code has it: handling a popstate event with the state \<^verbatim>\<open>{url: p}\<close> is
  the call \<^verbatim>\<open>navigate(p)\<close> itself, the push of the history entry included: when the
  page is fetched and rendered, the entries after the current one are dropped and a new
  entry for \<open>p\<close> is added.
\<close>

theorem C5_popstate_pushes:
  "onpopstate fetch (Some \<lparr>url = Some p\<rparr>) s = navigate fetch (Path p) s
   \<and> (getPage fetch p = Resolved h \<and> navigate_then p h s = Inr s'
      \<longrightarrow> onpopstate fetch (Some \<lparr>url = Some p\<rparr>) s = Inr s'
          \<and> history s' = take (Suc (history_index s)) (history s)
            @ [\<lparr>entry_state = Some \<lparr>url = Some p\<rparr>, entry_title = title (document s'),
                entry_url = p\<rparr>])"
proof (intro conjI impI)
  show "onpopstate fetch (Some \<lparr>url = Some p\<rparr>) s = navigate fetch (Path p) s"
    by (simp add: onpopstate_def)
next
  assume "getPage fetch p = Resolved h \<and> navigate_then p h s = Inr s'"
  then show "onpopstate fetch (Some \<lparr>url = Some p\<rparr>) s = Inr s'"
    by (simp add: onpopstate_def navigate_def)
next
  assume "getPage fetch p = Resolved h \<and> navigate_then p h s = Inr s'"
  then have "navigate_then p h s = Inr s'" by simp
  then show "history s' = take (Suc (history_index s)) (history s)
            @ [\<lparr>entry_state = Some \<lparr>url = Some p\<rparr>, entry_title = title (document s'),
                entry_url = p\<rparr>]"
    by (rule navigate_then_history)
qed

lemma getPage_about: "getPage example_fetch ''/about.html'' = Resolved (Html example_page)"
  by (simp add: getPage_def example_fetch_def ok_def)

lemma navigate_then_example:
  "navigate_then ''/about.html'' (Html example_page) example_state = Inr example_state_about"
  by code_simp

theorem C5_popstate_pushes_witness:
  "getPage example_fetch ''/about.html'' = Resolved (Html example_page)
   \<and> navigate_then ''/about.html'' (Html example_page) example_state = Inr example_state_about
   \<and> onpopstate example_fetch (Some \<lparr>url = Some ''/about.html''\<rparr>) example_state
       = Inr example_state_about
   \<and> history example_state_about = take (Suc (history_index example_state)) (history example_state)
        @ [\<lparr>entry_state = Some \<lparr>url = Some ''/about.html''\<rparr>,
            entry_title = title (document example_state_about), entry_url = ''/about.html''\<rparr>]"
  using C5_popstate_pushes [of example_fetch "''/about.html''" example_state "Html example_page"
      example_state_about] getPage_about navigate_then_example
  by blast

text \<open>
  C5 as the specification states it fails: the popstate event for
  \<^verbatim>\<open>/about.html\<close> leaves a history of three entries where there were two.
\<close>

theorem C5_counterexample:
  "onpopstate_set example_state
   \<and> popstate example_fetch (Some \<lparr>url = Some ''/about.html''\<rparr>) example_state
       = Inr example_state_about
   \<and> length (history example_state) = 2
   \<and> length (history example_state_about) = 3"
proof -
  have "onpopstate_set example_state" by (simp add: example_state_def)
  moreover from this have "popstate example_fetch (Some \<lparr>url = Some ''/about.html''\<rparr>) example_state
       = Inr example_state_about"
    using navigate_example by (simp add: popstate_def onpopstate_def)
  moreover have "length (history example_state) = 2" by (simp add: example_state_def)
  moreover have "length (history example_state_about) = 3" by (simp add: example_state_about_def)
  ultimately show ?thesis by blast
qed

text \<open>
  C3, as the code has it: a navigation whose fetch fails (a network error or a status
  outside 200..299) returns normally and changes nothing but the console: the document,
  the store of scripts, the counter of created elements and the history are as before.
  The line logged carries the message of the error, which for a response is its status
  text; the status code is not logged. A later navigation has the outcome it would have
  had without the failed one, the console apart.
\<close>

theorem C3_failed_fetch:
  "getUrl a = Inr u \<and> (fetch u = Rejected e \<or> fetch u = Resolved r \<and> \<not> ok r)
   \<longrightarrow> navigate fetch a s
        = Inr (s\<lparr>console := console s
                 @ [''There has been a problem with your fetch operation: ''
                    @ (case fetch u of Rejected e' \<Rightarrow> message e' | Resolved r' \<Rightarrow> statusText r')]\<rparr>)
       \<and> forget_console
           (navigate fetch' a'
              (s\<lparr>console := console s
                 @ [''There has been a problem with your fetch operation: ''
                    @ (case fetch u of Rejected e' \<Rightarrow> message e' | Resolved r' \<Rightarrow> statusText r')]\<rparr>))
         = forget_console (navigate fetch' a' s)"
proof (intro impI conjI)
  assume h: "getUrl a = Inr u \<and> (fetch u = Rejected e \<or> fetch u = Resolved r \<and> \<not> ok r)"
  then have "getPage fetch u
      = Rejected (case fetch u of Rejected e' \<Rightarrow> e' | Resolved r' \<Rightarrow> Error (statusText r') (status r') r')"
    by (auto simp: getPage_def)
  with h show "navigate fetch a s
        = Inr (s\<lparr>console := console s
                 @ [''There has been a problem with your fetch operation: ''
                    @ (case fetch u of Rejected e' \<Rightarrow> message e' | Resolved r' \<Rightarrow> statusText r')]\<rparr>)"
    by (auto simp: navigate_def navigate_catch_def console_error_def)
next
  show "forget_console
           (navigate fetch' a'
              (s\<lparr>console := console s
                 @ [''There has been a problem with your fetch operation: ''
                    @ (case fetch u of Rejected e' \<Rightarrow> message e' | Resolved r' \<Rightarrow> statusText r')]\<rparr>))
         = forget_console (navigate fetch' a' s)"
    by (rule navigate_console)
qed

lemma fetch_missing:
  "example_fetch ''/missing.html''
   = Resolved \<lparr>status = 404, statusText = ''Not Found'', response_text = Some example_page\<rparr>"
  by (simp add: example_fetch_def)

theorem C3_failed_fetch_witness:
  "navigate example_fetch (Path ''/missing.html'') example_state
     = Inr (example_state\<lparr>console := console example_state
              @ [''There has been a problem with your fetch operation: Not Found'']\<rparr>)
   \<and> forget_console
        (navigate example_fetch (Path ''/about.html'')
           (example_state\<lparr>console := console example_state
              @ [''There has been a problem with your fetch operation: Not Found'']\<rparr>))
      = forget_console (Inr example_state_about)"
  using C3_failed_fetch [of "Path ''/missing.html''" "''/missing.html''" example_fetch _
      "\<lparr>status = 404, statusText = ''Not Found'', response_text = Some example_page\<rparr>"
      example_state example_fetch "Path ''/about.html''"]
    fetch_missing navigate_example
  by (simp add: ok_def)

text \<open>
  C3 as the specification states it fails in one point, the logged line carrying the
  status: the responses 404 and 500 with an empty status text (as over HTTP/2) leave the
  same line.
\<close>

theorem C3_counterexample:
  "navigate (\<lambda>u. Resolved \<lparr>status = 404, statusText = [], response_text = None\<rparr>)
      (Path ''/missing.html'') example_state
     = Inr (example_state\<lparr>console := [''There has been a problem with your fetch operation: '']\<rparr>)
   \<and> navigate (\<lambda>u. Resolved \<lparr>status = 500, statusText = [], response_text = None\<rparr>)
      (Path ''/missing.html'') example_state
     = Inr (example_state\<lparr>console := [''There has been a problem with your fetch operation: '']\<rparr>)"
  by (simp add: navigate_def getPage_def ok_def navigate_catch_def console_error_def
      example_state_def)

subsection \<open>Processing the scripts\<close>

lemma scripts_of_remove_script:
  "scripts_of (remove_script i ns) = filter (\<lambda>x. sid x \<noteq> i) (scripts_of ns)"
  by (induction i ns rule: remove_script.induct) simp_all

lemma remove_script_absent:
  "i \<notin> sid ` set (scripts_of ns) \<Longrightarrow> remove_script i ns = ns"
  by (induction i ns rule: remove_script.induct) auto

lemma scripts_of_replace_script:
  "scripts_of (replace_script i new ns) = map (\<lambda>x. if sid x = i then new else x) (scripts_of ns)"
  by (induction i new ns rule: replace_script.induct) simp_all

lemma replace_script_absent:
  "i \<notin> sid ` set (scripts_of ns) \<Longrightarrow> replace_script i new ns = ns"
  by (induction i new ns rule: replace_script.induct) auto

lemma parent_tagName_None:
  "parent_tagName i t ns = None \<longleftrightarrow> i \<notin> sid ` set (scripts_of ns)"
  by (induction i t ns rule: parent_tagName.induct) (auto split: option.splits)

lemma nth_Script_in_scripts_of:
  "k < length ns \<Longrightarrow> ns ! k = Script sc \<Longrightarrow> sc \<in> set (scripts_of ns)"
proof (induction ns arbitrary: k)
  case Nil
  then show ?case by simp
next
  case (Cons n ns)
  show ?case
  proof (cases k)
    case 0
    with Cons.prems show ?thesis by simp
  next
    case (Suc j)
    with Cons.prems have "sc \<in> set (scripts_of ns)" by (simp add: Cons.IH)
    then show ?thesis by (cases n) simp_all
  qed
qed

lemma child_script:
  assumes "k < length ns" and "ns ! k = Script sc" and "distinct (map sid (scripts_of ns))"
  shows "parent_tagName (sid sc) t ns = Some t
         \<and> replace_script (sid sc) new ns = ns[k := Script new]"
  using assms
proof (induction ns arbitrary: k)
  case Nil
  then show ?case by simp
next
  case (Cons n ns)
  show ?case
  proof (cases k)
    case 0
    with Cons.prems have n: "n = Script sc" by simp
    from Cons.prems(3) n have "sid sc \<notin> sid ` set (scripts_of ns)" by simp
    then have "replace_script (sid sc) new ns = ns" by (rule replace_script_absent)
    with n 0 show ?thesis by simp
  next
    case (Suc j)
    with Cons.prems have j: "j < length ns" "ns ! j = Script sc" by simp_all
    then have m: "sc \<in> set (scripts_of ns)" by (rule nth_Script_in_scripts_of)
    show ?thesis
    proof (cases n)
      case (Script x)
      with Cons.prems(3) have d: "distinct (map sid (scripts_of ns))"
        and "sid x \<notin> sid ` set (scripts_of ns)" by simp_all
      with m have "sid x \<noteq> sid sc" by auto
      with Script Suc Cons.IH [OF j d] show ?thesis by simp
    next
      case (Link l)
      with Cons.prems(3) have d: "distinct (map sid (scripts_of ns))" by simp
      with Link Suc Cons.IH [OF j d] show ?thesis by simp
    next
      case (Elem t' cs)
      with Cons.prems(3) have d: "distinct (map sid (scripts_of ns))"
        and "sid ` set (scripts_of cs) \<inter> sid ` set (scripts_of ns) = {}" by simp_all
      with m have a: "sid sc \<notin> sid ` set (scripts_of cs)" by auto
      then have "parent_tagName (sid sc) t' cs = None" by (simp add: parent_tagName_None)
      moreover from a have "replace_script (sid sc) new cs = cs" by (rule replace_script_absent)
      ultimately show ?thesis using Elem Suc Cons.IH [OF j d] by simp
    next
      case (Text x)
      with Cons.prems(3) have d: "distinct (map sid (scripts_of ns))" by simp
      with Text Suc Cons.IH [OF j d] show ?thesis by simp
    qed
  qed
qed

lemma parseHTML_example:
  "parseHTML (Html example_page) example_state
   = (\<lparr>title = ''About'',
       head = [Script \<lparr>sid = 2, src = ''/a.js'', textContent = '' '', type = []\<rparr>,
               Script \<lparr>sid = 3, src = ''/a.js'', textContent = [], type = []\<rparr>,
               Script \<lparr>sid = 4, src = ''/b.js'', textContent = [], type = []\<rparr>],
       body = [Elem ''DIV'' [Script \<lparr>sid = 5, src = [], textContent = ''nested()'', type = []\<rparr>],
               Script \<lparr>sid = 6, src = [], textContent = ''about()'', type = []\<rparr>,
               Link \<lparr>pathname = ''/x.html'', dataset_noSpa = True, click_listeners = 0\<rparr>]\<rparr>,
      example_state\<lparr>next_id := 7\<rparr>)"
  by code_simp

text \<open>
  C4, as the code has it: a candidate whose parent is a head element is skipped (the
  live document, the parsed one and the store stay as they are) exactly when some script
  of the snapshot has its source and some script of the snapshot, possibly another one,
  has its text. Otherwise it is recorded at the end of the store and moved to the end of
  the live head.
\<close>

theorem C4_head_script:
  "enabled (options s)
   \<and> (parentNode_tagName (sid sc) (document s) = Some ''HEAD''
      \<or> parentNode_tagName (sid sc) (document s) = None
        \<and> parentNode_tagName (sid sc) h = Some ''HEAD'')
   \<longrightarrow> runScripts_callback sc (s, h)
        = (if list_ex (\<lambda>initSc. src initSc = src sc) (initialScripts s)
              \<and> list_ex (\<lambda>initSc. textContent initSc = textContent sc) (initialScripts s)
           then Inr (s, h)
           else Inr (s\<lparr>scriptsStore := scriptsStore s @ [sc],
                       document := (document s)
                         \<lparr>head := remove_script (sid sc) (head (document s)) @ [Script sc],
                          body := remove_script (sid sc) (body (document s))\<rparr>\<rparr>,
                     h\<lparr>head := remove_script (sid sc) (head h),
                        body := remove_script (sid sc) (body h)\<rparr>))"
proof (intro impI)
  assume a: "enabled (options s)
   \<and> (parentNode_tagName (sid sc) (document s) = Some ''HEAD''
      \<or> parentNode_tagName (sid sc) (document s) = None
        \<and> parentNode_tagName (sid sc) h = Some ''HEAD'')"
  then have "runScripts_callback sc (s, h) = loadHeadScripts sc (s, h)"
    by (auto simp: runScripts_callback_def)
  with a show "runScripts_callback sc (s, h)
        = (if list_ex (\<lambda>initSc. src initSc = src sc) (initialScripts s)
              \<and> list_ex (\<lambda>initSc. textContent initSc = textContent sc) (initialScripts s)
           then Inr (s, h)
           else Inr (s\<lparr>scriptsStore := scriptsStore s @ [sc],
                       document := (document s)
                         \<lparr>head := remove_script (sid sc) (head (document s)) @ [Script sc],
                          body := remove_script (sid sc) (body (document s))\<rparr>\<rparr>,
                     h\<lparr>head := remove_script (sid sc) (head h),
                        body := remove_script (sid sc) (body h)\<rparr>))"
    by (simp add: loadHeadScripts_def isNotInitialScript_def remove_def)
qed

theorem C4_head_script_witness:
  "runScripts_callback \<lparr>sid = 3, src = ''/a.js'', textContent = [], type = []\<rparr>
     (example_state\<lparr>next_id := 7\<rparr>,
      \<lparr>title = ''About'',
       head = [Script \<lparr>sid = 3, src = ''/a.js'', textContent = [], type = []\<rparr>,
               Script \<lparr>sid = 4, src = ''/b.js'', textContent = [], type = []\<rparr>],
       body = []\<rparr>)
   = Inr (example_state\<lparr>next_id := 7\<rparr>,
      \<lparr>title = ''About'',
       head = [Script \<lparr>sid = 3, src = ''/a.js'', textContent = [], type = []\<rparr>,
               Script \<lparr>sid = 4, src = ''/b.js'', textContent = [], type = []\<rparr>],
       body = []\<rparr>)
   \<and> runScripts_callback \<lparr>sid = 4, src = ''/b.js'', textContent = [], type = []\<rparr>
     (example_state\<lparr>next_id := 7\<rparr>,
      \<lparr>title = ''About'',
       head = [Script \<lparr>sid = 3, src = ''/a.js'', textContent = [], type = []\<rparr>,
               Script \<lparr>sid = 4, src = ''/b.js'', textContent = [], type = []\<rparr>],
       body = []\<rparr>)
   = Inr (example_state
           \<lparr>next_id := 7,
            scriptsStore := [\<lparr>sid = 4, src = ''/b.js'', textContent = [], type = []\<rparr>],
            document := (document example_state)
              \<lparr>head := [Script \<lparr>sid = 0, src = ''/a.js'', textContent = [], type = []\<rparr>,
                        Script \<lparr>sid = 4, src = ''/b.js'', textContent = [], type = []\<rparr>]\<rparr>\<rparr>,
      \<lparr>title = ''About'',
       head = [Script \<lparr>sid = 3, src = ''/a.js'', textContent = [], type = []\<rparr>],
       body = []\<rparr>)"
proof -
  let ?h = "\<lparr>title = ''About'',
       head = [Script \<lparr>sid = 3, src = ''/a.js'', textContent = [], type = []\<rparr>,
               Script \<lparr>sid = 4, src = ''/b.js'', textContent = [], type = []\<rparr>],
       body = []\<rparr>"
  have e: "enabled (options (example_state\<lparr>next_id := 7\<rparr>))" by (simp add: example_state_def)
  have p3: "parentNode_tagName 3 (document (example_state\<lparr>next_id := 7\<rparr>)) = None
      \<and> parentNode_tagName 3 ?h = Some ''HEAD''"
    by (simp add: example_state_def parentNode_tagName_def)
  have p4: "parentNode_tagName 4 (document (example_state\<lparr>next_id := 7\<rparr>)) = None
      \<and> parentNode_tagName 4 ?h = Some ''HEAD''"
    by (simp add: example_state_def parentNode_tagName_def)
  have i: "initialScripts (example_state\<lparr>next_id := 7\<rparr>)
      = [\<lparr>sid = 0, src = ''/a.js'', textContent = [], type = []\<rparr>,
         \<lparr>sid = 1, src = [], textContent = ''init()'', type = []\<rparr>]"
    by (simp add: example_state_def)
  have d: "document example_state = \<lparr>title = ''Home'',
         head = [Script \<lparr>sid = 0, src = ''/a.js'', textContent = [], type = []\<rparr>],
         body = [Link \<lparr>pathname = ''/about.html'', dataset_noSpa = False, click_listeners = 1\<rparr>,
                 Script \<lparr>sid = 1, src = [], textContent = ''init()'', type = []\<rparr>]\<rparr>"
    "scriptsStore example_state = []"
    by (simp_all add: example_state_def)
  from C4_head_script [of "example_state\<lparr>next_id := 7\<rparr>"
      "\<lparr>sid = 3, src = ''/a.js'', textContent = [], type = []\<rparr>" ?h] e p3 i
  have 1: "runScripts_callback \<lparr>sid = 3, src = ''/a.js'', textContent = [], type = []\<rparr>
     (example_state\<lparr>next_id := 7\<rparr>, ?h) = Inr (example_state\<lparr>next_id := 7\<rparr>, ?h)"
    by simp
  from C4_head_script [of "example_state\<lparr>next_id := 7\<rparr>"
      "\<lparr>sid = 4, src = ''/b.js'', textContent = [], type = []\<rparr>" ?h] e p4 i
  have 2: "runScripts_callback \<lparr>sid = 4, src = ''/b.js'', textContent = [], type = []\<rparr>
     (example_state\<lparr>next_id := 7\<rparr>, ?h)
   = Inr (example_state
           \<lparr>next_id := 7,
            scriptsStore := [\<lparr>sid = 4, src = ''/b.js'', textContent = [], type = []\<rparr>],
            document := (document example_state)
              \<lparr>head := [Script \<lparr>sid = 0, src = ''/a.js'', textContent = [], type = []\<rparr>,
                        Script \<lparr>sid = 4, src = ''/b.js'', textContent = [], type = []\<rparr>]\<rparr>\<rparr>,
      \<lparr>title = ''About'',
       head = [Script \<lparr>sid = 3, src = ''/a.js'', textContent = [], type = []\<rparr>],
       body = []\<rparr>)"
    by (simp add: d)
  from 1 2 show ?thesis by blast
qed

text \<open>
  C4 as the specification states it fails: the first head script of the page has the
  source of a script of the snapshot, so its identity as an external script matches; its
  text, a blank, is the text of no script of the snapshot, and the navigation appends and
  records it.
\<close>

theorem C4_counterexample:
  "identity_in_snapshot (initialScripts example_state)
     \<lparr>sid = 2, src = ''/a.js'', textContent = '' '', type = []\<rparr>
   \<and> head (fst (parseHTML (Html example_page) example_state))
      = [Script \<lparr>sid = 2, src = ''/a.js'', textContent = '' '', type = []\<rparr>,
         Script \<lparr>sid = 3, src = ''/a.js'', textContent = [], type = []\<rparr>,
         Script \<lparr>sid = 4, src = ''/b.js'', textContent = [], type = []\<rparr>]
   \<and> navigate example_fetch (Path ''/about.html'') example_state = Inr example_state_about
   \<and> scriptsStore example_state_about
      = [\<lparr>sid = 2, src = ''/a.js'', textContent = '' '', type = []\<rparr>,
         \<lparr>sid = 4, src = ''/b.js'', textContent = [], type = []\<rparr>]
   \<and> head (document example_state_about)
      = [Script \<lparr>sid = 0, src = ''/a.js'', textContent = [], type = []\<rparr>,
         Script \<lparr>sid = 2, src = ''/a.js'', textContent = '' '', type = []\<rparr>,
         Script \<lparr>sid = 4, src = ''/b.js'', textContent = [], type = []\<rparr>]"
proof -
  have "identity_in_snapshot (initialScripts example_state)
     \<lparr>sid = 2, src = ''/a.js'', textContent = '' '', type = []\<rparr>"
    by (simp add: identity_in_snapshot_def example_state_def)
  then show ?thesis
    using navigate_example by (simp add: parseHTML_example example_state_about_def)
qed

subsection \<open>The store and the snapshot\<close>

lemma kept_refl [simp]: "kept s s"
  by (simp add: kept_def)

lemma kept_trans [trans]: "kept s s' \<Longrightarrow> kept s' s'' \<Longrightarrow> kept s s''"
  by (auto simp: kept_def)

lemma parseHTML_kept: "parseHTML p s = (h, s') \<Longrightarrow> kept s s'"
  by (auto simp: parseHTML_def kept_def split: page.splits)

lemma clear_kept:
  "clear s = Inr s' \<Longrightarrow> kept s s'"
  "clear s = Inl (Throw e s') \<Longrightarrow> kept s s'"
  by (auto simp: clear_def kept_def split: if_splits)

lemma loadHTML_kept: "loadHTML h s = (s', h') \<Longrightarrow> kept s s'"
  by (auto simp: loadHTML_def kept_def)

lemma loadHeadScripts_kept:
  "loadHeadScripts sc (s, h) = Inr (s', h') \<Longrightarrow> kept s s'"
  "loadHeadScripts sc (s, h) = Inl (Throw e s') \<Longrightarrow> kept s s'"
  by (auto simp: loadHeadScripts_def kept_def split: if_splits)

lemma loadBodyScripts_kept:
  "loadBodyScripts sc (s, h) = Inr (s', h') \<Longrightarrow> kept s s'"
  "loadBodyScripts sc (s, h) = Inl (Throw e s') \<Longrightarrow> kept s s'"
  by (auto simp: loadBodyScripts_def Let_def kept_def split: if_splits)

lemma runScripts_callback_kept:
  "runScripts_callback sc (s, h) = Inr (s', h') \<Longrightarrow> kept s s'"
  "runScripts_callback sc (s, h) = Inl (Throw e s') \<Longrightarrow> kept s s'"
  using runScripts_callback_cases [of sc s h]
  by (auto dest: loadHeadScripts_kept [OF sym] loadBodyScripts_kept [OF sym])

lemma runScripts_kept:
  "(runScripts scs (s, h) = Inr (s', h') \<longrightarrow> kept s s')
   \<and> (runScripts scs (s, h) = Inl (Throw e s') \<longrightarrow> kept s s')"
proof (induction scs arbitrary: s h)
  case Nil
  show ?case by simp
next
  case (Cons sc scs)
  show ?case
  proof (cases "runScripts_callback sc (s, h)")
    case (Inl f)
    then show ?thesis
      using runScripts_callback_kept(2) [of sc s h e s'] by auto
  next
    case (Inr r)
    obtain s1 h1 where r: "r = (s1, h1)" by (cases r)
    with Inr have "kept s s1" by (simp add: runScripts_callback_kept(1))
    with Cons.IH [of s1 h1] Inr r show ?thesis
      by (auto intro: kept_trans)
  qed
qed

lemma enableSPA_kept: "enableSPA s = Some s' \<Longrightarrow> kept s s'"
  by (auto simp: enableSPA_def kept_def split: option.splits)

lemma pushState_kept [simp]: "kept s (pushState st t u s)"
  by (simp add: pushState_def kept_def)

lemma navigate_catch_kept [simp]: "kept s (navigate_catch e s)"
  by (simp add: navigate_catch_def console_error_def kept_def)

lemma navigate_then_Throw:
  assumes "navigate_then u p s = Inl (Throw e s')"
  obtains html s1 where "parseHTML p s = (html, s1)" and "clear s1 = Inl (Throw e s')"
  | html s1 s2 s3 html3 where "parseHTML p s = (html, s1)" and "clear s1 = Inr s2"
      and "loadHTML html s2 = (s3, html3)"
      and "runScripts (document_scripts (document s3) @ document_scripts html3) (s3, html3)
           = Inl (Throw e s')"
proof -
  obtain html s1 where p: "parseHTML p s = (html, s1)" by (cases "parseHTML p s")
  show thesis
  proof (cases "clear s1")
    case (Inl f)
    with assms p have "clear s1 = Inl (Throw e s')" by (simp add: navigate_then_def)
    with p that(1) show thesis by blast
  next
    case c: (Inr s2)
    obtain s3 html3 where l: "loadHTML html s2 = (s3, html3)" by (cases "loadHTML html s2")
    show thesis
    proof (cases "runScripts (document_scripts (document s3) @ document_scripts html3) (s3, html3)")
      case (Inl f)
      with assms p c l have "f = Throw e s'" by (simp add: navigate_then_def)
      with Inl p c l that(2) show thesis by blast
    next
      case r: (Inr r4)
      obtain s4 html4 where r4: "r4 = (s4, html4)" by (cases r4)
      with assms p c l r show thesis
        by (cases "enableSPA s4") (simp_all add: navigate_then_def)
    qed
  qed
qed

lemma navigate_then_kept:
  "(navigate_then u p s = Inr s' \<longrightarrow> kept s s')
   \<and> (navigate_then u p s = Inl (Throw e s') \<longrightarrow> kept s s')"
proof (intro conjI impI)
  assume "navigate_then u p s = Inr s'"
  then obtain html s1 s2 s3 html3 s4 html4 s5 where
    p: "parseHTML p s = (html, s1)" and c: "clear s1 = Inr s2"
    and l: "loadHTML html s2 = (s3, html3)"
    and r: "runScripts (document_scripts (document s3) @ document_scripts html3) (s3, html3)
         = Inr (s4, html4)"
    and e: "enableSPA s4 = Some s5"
    and s': "s' = pushState \<lparr>url = Some u\<rparr> (title (document s5)) u s5"
    by (rule navigate_then_Inr)
  have "kept s s1" using p by (rule parseHTML_kept)
  also have "kept s1 s2" using c by (rule clear_kept(1))
  also have "kept s2 s3" using l by (rule loadHTML_kept)
  also have "kept s3 s4" using r runScripts_kept by blast
  also have "kept s4 s5" using e by (rule enableSPA_kept)
  also have "kept s5 s'" by (simp add: s')
  finally show "kept s s'" .
next
  assume "navigate_then u p s = Inl (Throw e s')"
  then show "kept s s'"
  proof (cases rule: navigate_then_Throw)
    case (1 html s1)
    have "kept s s1" using 1(1) by (rule parseHTML_kept)
    also have "kept s1 s'" using 1(2) by (rule clear_kept(2))
    finally show ?thesis .
  next
    case (2 html s1 s2 s3 html3)
    have "kept s s1" using 2(1) by (rule parseHTML_kept)
    also have "kept s1 s2" using 2(2) by (rule clear_kept(1))
    also have "kept s2 s3" using 2(3) by (rule loadHTML_kept)
    also have "kept s3 s'" using 2(4) runScripts_kept by blast
    finally show ?thesis .
  qed
qed

lemma navigate_kept: "state_after (navigate fetch a s) = Some s' \<Longrightarrow> kept s s'"
proof (cases "getUrl a")
  case (Inl e)
  assume "state_after (navigate fetch a s) = Some s'"
  with Inl show ?thesis by (simp add: navigate_def)
next
  case (Inr u)
  assume a: "state_after (navigate fetch a s) = Some s'"
  show ?thesis
  proof (cases "getPage fetch u")
    case (Rejected e)
    with Inr a show ?thesis by (auto simp: navigate_def)
  next
    case (Resolved p)
    show ?thesis
    proof (cases "navigate_then u p s")
      case (Inl f)
      show ?thesis
      proof (cases f)
        case (Throw e s1)
        with Inl have "kept s s1" using navigate_then_kept by blast
        moreover from Inr Resolved Inl Throw a have "s' = navigate_catch e s1"
          by (simp add: navigate_def)
        ultimately show ?thesis by (auto intro: kept_trans)
      next
        case OutsideModel
        with Inr Resolved Inl a show ?thesis by (simp add: navigate_def)
      qed
    next
      case r: (Inr s1)
      with Inr Resolved a have "s' = s1" by (simp add: navigate_def)
      with r show ?thesis using navigate_then_kept by blast
    qed
  qed
qed

lemma perform_kept: "state_after (perform x s) = Some s' \<Longrightarrow> kept s s'"
proof (cases x)
  case (Navigate fetch a)
  assume "state_after (perform x s) = Some s'"
  with Navigate show ?thesis by (simp add: navigate_kept)
next
  case (Popstate fetch ev)
  assume a: "state_after (perform x s) = Some s'"
  show ?thesis
  proof (cases "onpopstate_set s")
    case True
    show ?thesis
    proof (cases ev)
      case None
      with Popstate True a show ?thesis by (simp add: popstate_def onpopstate_def)
    next
      case (Some st)
      with Popstate True a show ?thesis
        by (simp add: popstate_def onpopstate_def navigate_kept)
    qed
  next
    case False
    with Popstate a show ?thesis by (simp add: popstate_def)
  qed
next
  case Clear
  assume "state_after (perform x s) = Some s'"
  with Clear show ?thesis
    by (cases "clear s" rule: state_after.cases) (auto dest: clear_kept)
qed

lemma perform_all_kept: "perform_all xs s = Some s' \<Longrightarrow> kept s s'"
proof (induction xs arbitrary: s)
  case Nil
  then show ?case by simp
next
  case (Cons x xs)
  then obtain s1 where 1: "state_after (perform x s) = Some s1" and 2: "perform_all xs s1 = Some s'"
    by (auto split: option.splits)
  from 1 have "kept s s1" by (rule perform_kept)
  also from 2 have "kept s1 s'" by (rule Cons.IH)
  finally show ?case .
qed

text \<open>
  C9: over every sequence of navigations, popstate events and calls of \<^verbatim>\<open>clear\<close>,
  the store after the sequence begins with the store before it, so its length never
  decreases. \<^verbatim>\<open>clear\<close> leaves the store as it is and removes from the document every
  element of the whole store, the elements stored by earlier navigations included.
\<close>

theorem C9_store_grows:
  "perform_all xs s = Some s'
   \<longrightarrow> prefix (scriptsStore s) (scriptsStore s')
       \<and> length (scriptsStore s) \<le> length (scriptsStore s')
       \<and> (clear s' = Inr s''
          \<longrightarrow> scriptsStore s'' = scriptsStore s'
              \<and> document s'' = fold (\<lambda>sc d. remove (sid sc) d) (scriptsStore s') (document s'))"
proof (intro impI conjI)
  assume "perform_all xs s = Some s'"
  then have "kept s s'" by (rule perform_all_kept)
  then show "prefix (scriptsStore s) (scriptsStore s')" by (simp add: kept_def)
  then show "length (scriptsStore s) \<le> length (scriptsStore s')" by (rule prefix_length_le)
next
  assume "clear s' = Inr s''"
  then show "scriptsStore s'' = scriptsStore s'"
    by (auto simp: clear_def split: if_splits)
next
  assume "clear s' = Inr s''"
  then show "document s'' = fold (\<lambda>sc d. remove (sid sc) d) (scriptsStore s') (document s')"
    by (auto simp: clear_def split: if_splits)
qed

lemma snapshot_known_append [simp]:
  "snapshot_known i (xs @ ys) \<longleftrightarrow> snapshot_known i xs \<and> snapshot_known i ys"
  by (simp add: snapshot_known_def)

lemma snapshot_known_Nil [simp]: "snapshot_known i []"
  by (simp add: snapshot_known_def)

lemma snapshot_known_Cons:
  "snapshot_known i (x # xs) \<longleftrightarrow> snapshot_known i [x] \<and> snapshot_known i xs"
  by (simp add: snapshot_known_def)

lemma snapshot_known_subset:
  "snapshot_known i ys \<Longrightarrow> set xs \<subseteq> set ys \<Longrightarrow> snapshot_known i xs"
  by (auto simp: snapshot_known_def list_all_iff)

lemma snapshot_known_filter: "snapshot_known i xs \<Longrightarrow> snapshot_known i (filter P xs)"
  by (rule snapshot_known_subset) auto

lemma create_elements_sid:
  "x \<in> set (scripts_of (create_elements k ns)) \<Longrightarrow> k \<le> sid x"
proof (induction k ns rule: create_elements.induct)
  case (4 k t cs ns)
  then show ?case by fastforce
qed fastforce+

lemma snapshot_known_fresh:
  assumes "list_all (\<lambda>x. sid x < n) i" and "\<forall>x\<in>set xs. n \<le> sid x"
  shows "snapshot_known i xs"
  using assms by (fastforce simp: snapshot_known_def list_all_iff)

lemma parseHTML_invariant:
  assumes "parseHTML p s = (h, s')" and "router_invariant s"
  shows "router_invariant s' \<and> snapshot_known (initialScripts s') (document_scripts h)"
proof (cases p)
  case (Html t)
  with assms(1) have h: "h = \<lparr>title = title t, head = create_elements (next_id s) (head t),
      body = create_elements (next_id s + length (scripts_of (head t))) (body t)\<rparr>"
    and s': "s' = s\<lparr>next_id := next_id s + length (scripts_of (head t)) + length (scripts_of (body t))\<rparr>"
    by (simp_all add: parseHTML_def)
  from h have "\<forall>x\<in>set (document_scripts h). next_id s \<le> sid x"
    by (auto simp: document_scripts_def dest: create_elements_sid)
  moreover from assms(2) have "list_all (\<lambda>x. sid x < next_id s) (initialScripts s)"
    by (simp add: router_invariant_def)
  ultimately have "snapshot_known (initialScripts s) (document_scripts h)"
    by (rule snapshot_known_fresh [rotated])
  moreover from assms(2) s' have "router_invariant s'"
    by (auto simp: router_invariant_def list_all_iff)
  ultimately show ?thesis by (simp add: s')
next
  case (ResponseObject r)
  with assms show ?thesis by (auto simp: parseHTML_def document_scripts_def)
qed

lemma document_scripts_remove:
  "document_scripts (remove i d) = filter (\<lambda>x. sid x \<noteq> i) (document_scripts d)"
  by (simp add: document_scripts_def remove_def scripts_of_remove_script)

lemma document_scripts_fold_remove:
  "document_scripts (fold (\<lambda>sc d. remove (sid sc) d) st d)
   = filter (\<lambda>x. sid x \<notin> sid ` set st) (document_scripts d)"
proof (induction st arbitrary: d)
  case Nil
  show ?case by simp
next
  case (Cons sc st)
  show ?case
    by (simp add: Cons.IH document_scripts_remove)
qed

lemma clear_invariant:
  assumes "router_invariant s"
  shows "clear s = Inr (s\<lparr>document := fold (\<lambda>sc d. remove (sid sc) d) (scriptsStore s) (document s)\<rparr>)"
    and "router_invariant (s\<lparr>document := fold (\<lambda>sc d. remove (sid sc) d) (scriptsStore s) (document s)\<rparr>)"
  using assms
  by (simp_all add: clear_def router_invariant_def document_scripts_fold_remove
      snapshot_known_filter)

lemma scripts_of_append [simp]: "scripts_of (xs @ ys) = scripts_of xs @ scripts_of ys"
  by (induction xs rule: scripts_of.induct) simp_all

lemma loadHTML_invariant:
  assumes "loadHTML h s = (s', h')" and "router_invariant s"
    and "snapshot_known (initialScripts s) (document_scripts h)"
  shows "router_invariant s' \<and> snapshot_known (initialScripts s') (document_scripts h')"
  using assms
  by (auto simp: loadHTML_def router_invariant_def document_scripts_def)

lemma snapshot_member_initial:
  "sc \<in> set (initialScripts s) \<Longrightarrow> \<not> isNotInitialScript s sc"
  by (auto simp: isNotInitialScript_def list_ex_iff)

lemma document_scripts_insertBefore_remove:
  "document_scripts (insertBefore_remove i new d)
   = map (\<lambda>x. if sid x = i then new else x) (document_scripts d)"
  by (simp add: document_scripts_def insertBefore_remove_def scripts_of_replace_script)

lemma snapshot_known_map:
  assumes "snapshot_known i xs" and "sid new \<notin> sid ` set i"
  shows "snapshot_known i (map (\<lambda>x. if sid x = j then new else x) xs)"
  using assms by (auto simp: snapshot_known_def list_all_iff)

lemma loadHeadScripts_invariant:
  assumes "router_invariant s" and "snapshot_known (initialScripts s) (document_scripts h)"
    and "snapshot_known (initialScripts s) [sc]"
  shows "\<exists>s' h'. loadHeadScripts sc (s, h) = Inr (s', h') \<and> router_invariant s'
           \<and> snapshot_known (initialScripts s') (document_scripts h')"
proof (cases "isNotInitialScript s sc")
  case True
  then have "sc \<notin> set (initialScripts s)" using snapshot_member_initial by blast
  with assms(3) have n: "sid sc \<notin> sid ` set (initialScripts s)"
    by (simp add: snapshot_known_def)
  let ?s' = "s\<lparr>scriptsStore := scriptsStore s @ [sc],
               document := (remove (sid sc) (document s))
                 \<lparr>head := remove_script (sid sc) (head (document s)) @ [Script sc]\<rparr>\<rparr>"
  from assms(1) True have "loadHeadScripts sc (s, h) = Inr (?s', remove (sid sc) h)"
    by (simp add: loadHeadScripts_def router_invariant_def)
  moreover from assms(1,3) n have "router_invariant ?s'"
    by (auto simp: router_invariant_def document_scripts_def remove_def scripts_of_remove_script
        snapshot_known_def list_all_iff)
  moreover from assms(2) have "snapshot_known (initialScripts ?s') (document_scripts (remove (sid sc) h))"
    by (simp add: document_scripts_remove snapshot_known_filter)
  ultimately show ?thesis by blast
next
  case False
  with assms show ?thesis by (simp add: loadHeadScripts_def router_invariant_def)
qed

lemma loadBodyScripts_invariant:
  assumes "router_invariant s" and "snapshot_known (initialScripts s) (document_scripts h)"
  shows "(loadBodyScripts sc (s, h) = Inr (s', h') \<longrightarrow> router_invariant s'
           \<and> snapshot_known (initialScripts s') (document_scripts h'))
         \<and> (loadBodyScripts sc (s, h) = Inl (Throw e s') \<longrightarrow> router_invariant s')"
proof -
  from assms(1) have b: "\<forall>x\<in>set (initialScripts s). sid x < next_id s"
    by (simp add: router_invariant_def list_all_iff)
  then have n: "next_id s \<notin> sid ` set (initialScripts s)" by auto
  from b have b': "\<forall>x\<in>set (initialScripts s). sid x < Suc (next_id s)" by auto
  from assms(1) have 1: "router_invariant (s\<lparr>next_id := Suc (next_id s)\<rparr>)"
    using b' by (simp add: router_invariant_def list_all_iff)
  have 2: "router_invariant (s\<lparr>next_id := Suc (next_id s),
      document := insertBefore_remove (sid sc) new (document s)\<rparr>)" if "sid new = next_id s" for new
    using assms(1) b' n that
    by (simp add: router_invariant_def list_all_iff document_scripts_insertBefore_remove
        snapshot_known_map)
  have 3: "snapshot_known (initialScripts s) (document_scripts (insertBefore_remove (sid sc) new h))"
    if "sid new = next_id s" for new
    using assms(2) n that by (simp add: document_scripts_insertBefore_remove snapshot_known_map)
  show ?thesis
    using 1 2 3 by (auto simp: loadBodyScripts_def Let_def split: if_splits)
qed

lemma runScripts_callback_invariant:
  assumes "router_invariant s" and "snapshot_known (initialScripts s) (document_scripts h)"
    and "snapshot_known (initialScripts s) [sc]"
  shows "(runScripts_callback sc (s, h) = Inr (s', h') \<longrightarrow> router_invariant s'
           \<and> snapshot_known (initialScripts s') (document_scripts h'))
         \<and> (runScripts_callback sc (s, h) = Inl (Throw e s') \<longrightarrow> router_invariant s')"
proof -
  consider (head) "runScripts_callback sc (s, h) = loadHeadScripts sc (s, h)"
    | (body) "runScripts_callback sc (s, h) = loadBodyScripts sc (s, h)"
    | (other) "runScripts_callback sc (s, h) = Inr (s, h)"
    | (none) "runScripts_callback sc (s, h) = Inl (Throw (cannot_read ''null'' ''tagName'') s)"
    using runScripts_callback_cases by blast
  then show ?thesis
  proof cases
    case head
    with loadHeadScripts_invariant [OF assms] show ?thesis by auto
  next
    case body
    with loadBodyScripts_invariant [OF assms(1,2), of sc s' h' e] show ?thesis by simp
  next
    case other
    with assms show ?thesis by auto
  next
    case none
    with assms show ?thesis by auto
  qed
qed

lemma runScripts_invariant:
  assumes "router_invariant s" and "snapshot_known (initialScripts s) (document_scripts h)"
    and "snapshot_known (initialScripts s) scs"
  shows "(runScripts scs (s, h) = Inr (s', h') \<longrightarrow> router_invariant s')
         \<and> (runScripts scs (s, h) = Inl (Throw e s') \<longrightarrow> router_invariant s')"
  using assms
proof (induction scs arbitrary: s h)
  case Nil
  then show ?case by auto
next
  case (Cons sc scs)
  from Cons.prems(3) have k1: "snapshot_known (initialScripts s) [sc]"
    and k2: "snapshot_known (initialScripts s) scs"
    by (simp_all add: snapshot_known_def)
  show ?case
  proof (cases "runScripts_callback sc (s, h)")
    case (Inl f)
    then show ?thesis
      using runScripts_callback_invariant [OF Cons.prems(1,2) k1, of s' h' e] by auto
  next
    case (Inr r)
    obtain s1 h1 where r: "r = (s1, h1)" by (cases r)
    with Inr have c: "runScripts_callback sc (s, h) = Inr (s1, h1)" by simp
    then have "kept s s1" by (rule runScripts_callback_kept(1))
    then have i: "initialScripts s1 = initialScripts s" by (simp add: kept_def)
    from c runScripts_callback_invariant [OF Cons.prems(1,2) k1, of s1 h1]
    have "router_invariant s1" "snapshot_known (initialScripts s1) (document_scripts h1)"
      by simp_all
    with Cons.IH [of s1 h1] k2 i c show ?thesis by simp
  qed
qed

lemma enableSPA_invariant:
  "enableSPA s = Some s' \<Longrightarrow> router_invariant s \<Longrightarrow> router_invariant s'"
  by (auto simp: enableSPA_def router_invariant_def document_scripts_def split: option.splits)

lemma pushState_invariant [simp]:
  "router_invariant (pushState st t u s) = router_invariant s"
  by (simp add: pushState_def router_invariant_def)

lemma navigate_catch_invariant [simp]:
  "router_invariant (navigate_catch e s) = router_invariant s"
  by (simp add: navigate_catch_def console_error_def router_invariant_def)

lemma navigate_then_invariant:
  assumes "router_invariant s"
  shows "(navigate_then u p s = Inr s' \<longrightarrow> router_invariant s')
         \<and> (navigate_then u p s = Inl (Throw e s') \<longrightarrow> router_invariant s')"
proof -
  obtain html s1 where p: "parseHTML p s = (html, s1)" by (cases "parseHTML p s")
  from parseHTML_invariant [OF p assms] have i1: "router_invariant s1"
    and k1: "snapshot_known (initialScripts s1) (document_scripts html)" by simp_all
  let ?s2 = "s1\<lparr>document := fold (\<lambda>sc d. remove (sid sc) d) (scriptsStore s1) (document s1)\<rparr>"
  from clear_invariant [OF i1] have c: "clear s1 = Inr ?s2" and i2: "router_invariant ?s2"
    by simp_all
  obtain s3 html3 where l: "loadHTML html ?s2 = (s3, html3)" by (cases "loadHTML html ?s2")
  from k1 have "snapshot_known (initialScripts ?s2) (document_scripts html)" by simp
  from loadHTML_invariant [OF l i2 this] have i3: "router_invariant s3"
    and k3: "snapshot_known (initialScripts s3) (document_scripts html3)" by simp_all
  from i3 have "snapshot_known (initialScripts s3) (document_scripts (document s3))"
    by (simp add: router_invariant_def)
  with k3 have k: "snapshot_known (initialScripts s3)
      (document_scripts (document s3) @ document_scripts html3)" by simp
  note r = runScripts_invariant [OF i3 k3 k]
  show ?thesis
  proof (intro conjI impI)
    assume "navigate_then u p s = Inr s'"
    then obtain html' s1' s2' s3' html3' s4 html4 s5 where
      p': "parseHTML p s = (html', s1')" and c': "clear s1' = Inr s2'"
      and l': "loadHTML html' s2' = (s3', html3')"
      and r': "runScripts (document_scripts (document s3') @ document_scripts html3') (s3', html3')
         = Inr (s4, html4)"
      and e: "enableSPA s4 = Some s5"
      and s': "s' = pushState \<lparr>url = Some u\<rparr> (title (document s5)) u s5"
      by (rule navigate_then_Inr)
    from p p' c c' l l' have "s3' = s3" "html3' = html3" by simp_all
    with r' r have "router_invariant s4" by blast
    with e have "router_invariant s5" by (rule enableSPA_invariant)
    with s' show "router_invariant s'" by simp
  next
    assume "navigate_then u p s = Inl (Throw e s')"
    then show "router_invariant s'"
    proof (cases rule: navigate_then_Throw)
      case (1 html' s1')
      with p c show ?thesis by simp
    next
      case (2 html' s1' s2' s3' html3')
      with p c l have "s3' = s3" "html3' = html3" by simp_all
      with 2(4) r show ?thesis by blast
    qed
  qed
qed

lemma navigate_invariant:
  assumes "router_invariant s" and "state_after (navigate fetch a s) = Some s'"
  shows "router_invariant s'"
proof (cases "getUrl a")
  case (Inl e)
  with assms show ?thesis by (simp add: navigate_def)
next
  case (Inr u)
  show ?thesis
  proof (cases "getPage fetch u")
    case (Rejected e)
    with Inr assms show ?thesis by (auto simp: navigate_def)
  next
    case (Resolved p)
    show ?thesis
    proof (cases "navigate_then u p s")
      case (Inl f)
      show ?thesis
      proof (cases f)
        case (Throw e s1)
        with Inl have "router_invariant s1" using navigate_then_invariant [OF assms(1)] by blast
        moreover from Inr Resolved Inl Throw assms(2) have "s' = navigate_catch e s1"
          by (simp add: navigate_def)
        ultimately show ?thesis by simp
      next
        case OutsideModel
        with Inr Resolved Inl assms(2) show ?thesis by (simp add: navigate_def)
      qed
    next
      case r: (Inr s1)
      with Inr Resolved assms(2) have "s' = s1" by (simp add: navigate_def)
      with r show ?thesis using navigate_then_invariant [OF assms(1)] by blast
    qed
  qed
qed

lemma perform_invariant:
  assumes "router_invariant s" and "state_after (perform x s) = Some s'"
  shows "router_invariant s'"
proof (cases x)
  case (Navigate fetch a)
  with assms show ?thesis by (simp add: navigate_invariant)
next
  case (Popstate fetch ev)
  show ?thesis
  proof (cases "onpopstate_set s")
    case True
    show ?thesis
    proof (cases ev)
      case None
      with Popstate True assms show ?thesis by (simp add: popstate_def onpopstate_def)
    next
      case (Some st)
      with Popstate True assms show ?thesis
        by (simp add: popstate_def onpopstate_def navigate_invariant)
    qed
  next
    case False
    with Popstate assms show ?thesis by (simp add: popstate_def)
  qed
next
  case Clear
  with assms clear_invariant [OF assms(1)] show ?thesis by auto
qed

lemma perform_all_invariant:
  "router_invariant s \<Longrightarrow> perform_all xs s = Some s' \<Longrightarrow> router_invariant s'"
proof (induction xs arbitrary: s)
  case Nil
  then show ?case by simp
next
  case (Cons x xs)
  then obtain s1 where 1: "state_after (perform x s) = Some s1" and 2: "perform_all xs s1 = Some s'"
    by (auto split: option.splits)
  from Cons.prems(1) 1 have "router_invariant s1" by (rule perform_invariant)
  then show ?case using 2 by (rule Cons.IH)
qed

lemma constructor_invariant:
  assumes "constructor opts b = Some s" and "enabled opts"
    and "list_all (\<lambda>x. sid x < next_id b) (document_scripts (document b))"
  shows "router_invariant s"
proof -
  let ?s0 = "browser.extend b
      \<lparr>options = opts, scriptsStore = [], initialScripts = document_scripts (document b)\<rparr>"
  have "router_invariant (addRouteListener ?s0)"
    using assms(2,3)
    by (simp add: router_invariant_def addRouteListener_def browser.extend_def
        snapshot_known_def list_all_iff)
  moreover from assms(1,2) obtain s1 where "enableSPA (addRouteListener ?s0) = Some s1"
    and "s = pushState \<lparr>url = Some (location_pathname s1)\<rparr> (title (document s1))
              (location_pathname s1) s1"
    by (auto simp: constructor_def initialize_def split: option.splits)
  ultimately show ?thesis by (simp add: enableSPA_invariant)
qed

lemma head_fold_remove:
  "scripts_of (head (fold (\<lambda>sc d. remove (sid sc) d) st d))
   = filter (\<lambda>x. sid x \<notin> sid ` set st) (scripts_of (head d))"
proof (induction st arbitrary: d)
  case Nil
  show ?case by simp
next
  case (Cons sc st)
  have "head (remove (sid sc) d) = remove_script (sid sc) (head d)"
    by (simp add: remove_def)
  then show ?case
    by (simp add: Cons.IH scripts_of_remove_script)
qed

lemma remove_absent:
  "i \<notin> sid ` set (document_scripts d) \<Longrightarrow> remove i d = d"
  by (simp add: remove_def document_scripts_def remove_script_absent image_Un)

lemma fold_remove_absent:
  "\<forall>sc\<in>set st. sid sc \<notin> sid ` set (document_scripts d)
   \<Longrightarrow> fold (\<lambda>sc d. remove (sid sc) d) st d = d"
  by (induction st) (simp_all add: remove_absent)

text \<open>
  C8: in every state that a router enabled at its construction reaches by navigations,
  popstate events and calls of \<^verbatim>\<open>clear\<close> (in a browser whose counter is above the
  identities of the scripts of the page), \<^verbatim>\<open>clear\<close> returns; after it no stored
  script is in the live document, the scripts of the snapshot that were in the head are
  still there in the same order, and a second \<^verbatim>\<open>clear\<close> changes nothing.
\<close>

theorem C8_clear:
  "constructor opts b = Some s0 \<and> enabled opts
   \<and> list_all (\<lambda>x. sid x < next_id b) (document_scripts (document b))
   \<and> perform_all xs s0 = Some s
   \<longrightarrow> (\<exists>s'. clear s = Inr s'
          \<and> list_all (\<lambda>sc. sid sc \<notin> sid ` set (document_scripts (document s'))) (scriptsStore s')
          \<and> filter (\<lambda>x. x \<in> set (initialScripts s)) (scripts_of (head (document s')))
              = filter (\<lambda>x. x \<in> set (initialScripts s)) (scripts_of (head (document s)))
          \<and> clear s' = Inr s')"
proof (intro impI)
  assume a: "constructor opts b = Some s0 \<and> enabled opts
   \<and> list_all (\<lambda>x. sid x < next_id b) (document_scripts (document b))
   \<and> perform_all xs s0 = Some s"
  then have "router_invariant s0" using constructor_invariant by blast
  with a have i: "router_invariant s" using perform_all_invariant by blast
  let ?s' = "s\<lparr>document := fold (\<lambda>sc d. remove (sid sc) d) (scriptsStore s) (document s)\<rparr>"
  from i have c: "clear s = Inr ?s'" by (rule clear_invariant(1))
  have gone: "\<forall>sc\<in>set (scriptsStore s). sid sc \<notin> sid ` set (document_scripts (document ?s'))"
  proof
    fix sc assume "sc \<in> set (scriptsStore s)"
    then have "sid sc \<in> sid ` set (scriptsStore s)" by simp
    then show "sid sc \<notin> sid ` set (document_scripts (document ?s'))"
      by (auto simp: document_scripts_fold_remove)
  qed
  then have 1: "list_all (\<lambda>sc. sid sc \<notin> sid ` set (document_scripts (document ?s'))) (scriptsStore ?s')"
    by (simp add: list_all_iff)
  from i have apart: "\<forall>sc\<in>set (scriptsStore s). sid sc \<notin> sid ` set (initialScripts s)"
    by (simp add: router_invariant_def list_all_iff)
  have keep: "x \<in> set (initialScripts s) \<Longrightarrow> sid x \<notin> sid ` set (scriptsStore s)" for x
  proof
    assume "x \<in> set (initialScripts s)" and "sid x \<in> sid ` set (scriptsStore s)"
    then obtain sc where "sc \<in> set (scriptsStore s)" and "sid sc = sid x" by auto
    with apart \<open>x \<in> set (initialScripts s)\<close> show False by (metis imageI)
  qed
  have 2: "filter (\<lambda>x. x \<in> set (initialScripts s)) (scripts_of (head (document ?s')))
      = filter (\<lambda>x. x \<in> set (initialScripts s)) (scripts_of (head (document s)))"
    using keep by (auto simp: head_fold_remove intro!: filter_cong)
  from gone have "fold (\<lambda>sc d. remove (sid sc) d) (scriptsStore ?s') (document ?s') = document ?s'"
    by (intro fold_remove_absent) simp
  with i have 3: "clear ?s' = Inr ?s'"
    by (simp add: clear_def router_invariant_def)
  from c 1 2 3 show "\<exists>s'. clear s = Inr s'
          \<and> list_all (\<lambda>sc. sid sc \<notin> sid ` set (document_scripts (document s'))) (scriptsStore s')
          \<and> filter (\<lambda>x. x \<in> set (initialScripts s)) (scripts_of (head (document s')))
              = filter (\<lambda>x. x \<in> set (initialScripts s)) (scripts_of (head (document s)))
          \<and> clear s' = Inr s'"
    by blast
qed

lemma clear_example_about: "clear example_state_about = Inr example_state_cleared"
  by code_simp

lemma perform_example:
  "perform_all [Navigate example_fetch (Path ''/about.html'')] example_state
   = Some example_state_about"
  by (simp add: navigate_example)

lemma perform_example_twice:
  "perform_all [Clear, Navigate example_fetch (Path ''/about.html'')] example_state_about
   = Some example_state_twice"
  by code_simp

lemma clear_example_twice:
  "clear example_state_twice
   = Inr (example_state_twice
       \<lparr>document := (document example_state_twice)
          \<lparr>head := [Script \<lparr>sid = 0, src = ''/a.js'', textContent = [], type = []\<rparr>]\<rparr>\<rparr>)"
  by code_simp

theorem C8_clear_witness:
  "constructor example_options example_browser = Some example_state
   \<and> perform_all [Navigate example_fetch (Path ''/about.html'')] example_state
       = Some example_state_about
   \<and> clear example_state_about = Inr example_state_cleared
   \<and> list_all (\<lambda>sc. sid sc \<notin> sid ` set (document_scripts (document example_state_cleared)))
        (scriptsStore example_state_cleared)
   \<and> filter (\<lambda>x. x \<in> set (initialScripts example_state_about))
        (scripts_of (head (document example_state_cleared)))
      = filter (\<lambda>x. x \<in> set (initialScripts example_state_about))
          (scripts_of (head (document example_state_about)))
   \<and> clear example_state_cleared = Inr example_state_cleared"
proof -
  have e: "enabled example_options" by (simp add: example_options_def)
  have b: "list_all (\<lambda>x. sid x < next_id example_browser)
      (document_scripts (document example_browser))"
    by (simp add: example_browser_def document_scripts_def)
  from C8_clear [of example_options example_browser example_state
      "[Navigate example_fetch (Path ''/about.html'')]" example_state_about]
    constructor_example e b perform_example clear_example_about
  show ?thesis by simp
qed

theorem C9_store_grows_witness:
  "perform_all [Clear, Navigate example_fetch (Path ''/about.html'')] example_state_about
     = Some example_state_twice
   \<and> prefix (scriptsStore example_state_about) (scriptsStore example_state_twice)
   \<and> length (scriptsStore example_state_about) \<le> length (scriptsStore example_state_twice)
   \<and> clear example_state_twice
      = Inr (example_state_twice
          \<lparr>document := (document example_state_twice)
             \<lparr>head := [Script \<lparr>sid = 0, src = ''/a.js'', textContent = [], type = []\<rparr>]\<rparr>\<rparr>)
   \<and> scriptsStore (example_state_twice
          \<lparr>document := (document example_state_twice)
             \<lparr>head := [Script \<lparr>sid = 0, src = ''/a.js'', textContent = [], type = []\<rparr>]\<rparr>\<rparr>)
      = scriptsStore example_state_twice"
  using C9_store_grows [of "[Clear, Navigate example_fetch (Path ''/about.html'')]"
      example_state_about example_state_twice
      "example_state_twice
          \<lparr>document := (document example_state_twice)
             \<lparr>head := [Script \<lparr>sid = 0, src = ''/a.js'', textContent = [], type = []\<rparr>]\<rparr>\<rparr>"]
    perform_example_twice clear_example_twice
  by simp

subsection \<open>The identities of the elements stay distinct\<close>

lemma example_loaded:
  "case parseHTML (Html example_page) example_state of (html, s1) \<Rightarrow>
     (case clear s1 of Inr s2 \<Rightarrow> loadHTML html s2 = (example_state_loaded, example_page_loaded)
      | Inl f \<Rightarrow> False)"
  by code_simp

lemma wellformed_filter: "wellformed n xs \<Longrightarrow> wellformed n (filter P xs)"
  by (simp add: wellformed_def distinct_map_filter list_all_iff)

lemma wellformed_mono: "wellformed n xs \<Longrightarrow> n \<le> m \<Longrightarrow> wellformed m xs"
  by (auto simp: wellformed_def list_all_iff)

lemma wellformed_permute:
  "wellformed n xs \<Longrightarrow> set ys \<subseteq> set xs \<Longrightarrow> distinct ys \<Longrightarrow> wellformed n ys"
  by (auto simp: wellformed_def list_all_iff distinct_map intro: inj_on_subset)

lemma scripts_of_create_elements:
  "map sid (scripts_of (create_elements k ns)) = [k ..< k + length (scripts_of ns)]"
proof (induction k ns rule: create_elements.induct)
  case (2 k sc ns)
  then show ?case by (simp add: upt_rec)
next
  case (4 k t cs ns)
  have "[k ..< k + (length (scripts_of cs) + length (scripts_of ns))]
      = [k ..< k + length (scripts_of cs)]
        @ [k + length (scripts_of cs) ..< k + length (scripts_of cs) + length (scripts_of ns)]"
    by (metis add.assoc le_add1 upt_add_eq_append)
  with 4 show ?case by simp
qed simp_all

lemma length_create_elements [simp]:
  "length (scripts_of (create_elements k ns)) = length (scripts_of ns)"
  using scripts_of_create_elements [of k ns] by (metis length_map length_upt add_diff_cancel_left')

lemma parseHTML_wellformed:
  assumes "parseHTML p s = (h, s')" and "wellformed (next_id s) (document_scripts (document s))"
  shows "wellformed (next_id s') (document_scripts (document s') @ document_scripts h)"
proof (cases p)
  case (Html t)
  let ?a = "length (scripts_of (head t))" and ?b = "length (scripts_of (body t))"
  from Html assms(1) have h: "h = \<lparr>title = title t, head = create_elements (next_id s) (head t),
      body = create_elements (next_id s + ?a) (body t)\<rparr>"
    and s': "s' = s\<lparr>next_id := next_id s + ?a + ?b\<rparr>"
    by (simp_all add: parseHTML_def)
  have "[next_id s ..< next_id s + ?a + ?b]
      = [next_id s ..< next_id s + ?a] @ [next_id s + ?a ..< next_id s + ?a + ?b]"
    by (metis le_add1 upt_add_eq_append)
  with h have m: "map sid (document_scripts h) = [next_id s ..< next_id s + ?a + ?b]"
    by (simp add: document_scripts_def scripts_of_create_elements)
  then have "set (map sid (document_scripts h)) = {next_id s ..< next_id s + ?a + ?b}"
    by simp
  then have r: "sid ` set (document_scripts h) = {next_id s ..< next_id s + ?a + ?b}"
    by simp
  from m have d: "distinct (map sid (document_scripts h))" by simp
  from assms(2) have l: "\<forall>x\<in>set (document_scripts (document s)). sid x < next_id s"
    and dd: "distinct (map sid (document_scripts (document s)))"
    by (simp_all add: wellformed_def list_all_iff)
  have "sid ` set (document_scripts (document s)) \<inter> sid ` set (document_scripts h) = {}"
  proof -
    have False if a: "i \<in> sid ` set (document_scripts (document s))"
      and b: "i \<in> sid ` set (document_scripts h)" for i
    proof -
      from a l have "i < next_id s" by auto
      moreover from b have "next_id s \<le> i" unfolding r by simp
      ultimately show False by simp
    qed
    then show ?thesis by blast
  qed
  with d dd have "distinct (map sid (document_scripts (document s) @ document_scripts h))"
    by simp
  moreover have "\<forall>x\<in>set (document_scripts (document s) @ document_scripts h).
      sid x < next_id s + ?a + ?b"
  proof
    fix x assume "x \<in> set (document_scripts (document s) @ document_scripts h)"
    then consider "x \<in> set (document_scripts (document s))" | "x \<in> set (document_scripts h)"
      by auto
    then show "sid x < next_id s + ?a + ?b"
    proof cases
      case 1
      with l have "sid x < next_id s" by simp
      then show ?thesis by simp
    next
      case 2
      then have "sid x \<in> sid ` set (document_scripts h)" by simp
      then show ?thesis unfolding r by simp
    qed
  qed
  ultimately show ?thesis by (simp add: s' wellformed_def list_all_iff)
next
  case (ResponseObject r)
  with assms show ?thesis by (auto simp: parseHTML_def document_scripts_def)
qed

lemma wellformed_distinct: "wellformed n xs \<Longrightarrow> distinct xs"
  by (simp add: wellformed_def distinct_map)

lemma wellformed_append_filter:
  assumes "wellformed n (xs @ ys)"
  shows "wellformed n (filter P xs @ ys)"
proof (rule wellformed_permute [OF assms])
  show "set (filter P xs @ ys) \<subseteq> set (xs @ ys)" by auto
  from wellformed_distinct [OF assms] show "distinct (filter P xs @ ys)" by auto
qed

lemma clear_wellformed:
  assumes "wellformed (next_id s) (document_scripts (document s) @ document_scripts h)"
    and "clear s = Inr s'"
  shows "wellformed (next_id s') (document_scripts (document s') @ document_scripts h)"
proof -
  from assms(2) have "s' = s\<lparr>document := fold (\<lambda>sc d. remove (sid sc) d) (scriptsStore s) (document s)\<rparr>"
    by (simp add: clear_def split: if_splits)
  with assms(1) show ?thesis
    by (simp add: document_scripts_fold_remove wellformed_append_filter)
qed

lemma loadHTML_wellformed:
  assumes "wellformed (next_id s) (document_scripts (document s) @ document_scripts h)"
    and "loadHTML h s = (s', h')"
  shows "wellformed (next_id s') (document_scripts (document s') @ document_scripts h')"
proof -
  from assms(2) have e: "document_scripts (document s') @ document_scripts h'
      = scripts_of (head (document s)) @ scripts_of (body h) @ scripts_of (head h)"
    and n: "next_id s' = next_id s"
    by (auto simp: loadHTML_def document_scripts_def)
  have "wellformed (next_id s)
      (scripts_of (head (document s)) @ scripts_of (body h) @ scripts_of (head h))"
  proof (rule wellformed_permute [OF assms(1)])
    show "set (scripts_of (head (document s)) @ scripts_of (body h) @ scripts_of (head h))
        \<subseteq> set (document_scripts (document s) @ document_scripts h)"
      by (auto simp: document_scripts_def)
    from wellformed_distinct [OF assms(1)]
    show "distinct (scripts_of (head (document s)) @ scripts_of (body h) @ scripts_of (head h))"
      by (auto simp: document_scripts_def)
  qed
  with e n show ?thesis by simp
qed

lemma distinct_replace:
  assumes "distinct (map sid xs)" and "sid new \<notin> sid ` set xs"
  shows "distinct (map sid (map (\<lambda>x. if sid x = i then new else x) xs))"
proof -
  define f where "f = (\<lambda>x. if sid x = i then new else x)"
  have "distinct (map sid (map f xs))"
    using assms
  proof (induction xs)
    case Nil
    show ?case by simp
  next
    case (Cons x xs)
    then have IH: "distinct (map sid (map f xs))"
      and n: "sid new \<noteq> sid x" "sid new \<notin> sid ` set xs" and x: "sid x \<notin> sid ` set xs"
      by auto
    have "sid (f x) \<noteq> sid (f y)" if y: "y \<in> set xs" for y
    proof -
      from y have m: "sid y \<in> sid ` set xs" by simp
      with x have 1: "sid x \<noteq> sid y" by metis
      from m n have 2: "sid new \<noteq> sid y" by metis
      from 1 2 n show ?thesis by (auto simp: f_def)
    qed
    then have "sid (f x) \<notin> set (map sid (map f xs))" by auto
    with IH show ?case by simp
  qed
  then show ?thesis by (simp add: f_def)
qed

lemma loadHeadScripts_wellformed:
  assumes "wellformed (next_id s) (document_scripts (document s) @ document_scripts h)"
    and "sid sc \<in> sid ` set (document_scripts (document s) @ document_scripts h)"
    and "loadHeadScripts sc (s, h) = Inr (s', h')"
  shows "wellformed (next_id s') (document_scripts (document s') @ document_scripts h')"
proof (cases "enabled (options s) \<and> isNotInitialScript s sc")
  case True
  with assms(3) have s': "s' = s\<lparr>scriptsStore := scriptsStore s @ [sc],
               document := (remove (sid sc) (document s))
                 \<lparr>head := remove_script (sid sc) (head (document s)) @ [Script sc]\<rparr>\<rparr>"
    and h': "h' = remove (sid sc) h"
    by (simp_all add: loadHeadScripts_def)
  let ?P = "\<lambda>x. sid x \<noteq> sid sc"
  have eq: "document_scripts (document s') @ document_scripts h'
      = filter ?P (scripts_of (head (document s))) @ [sc]
        @ filter ?P (scripts_of (body (document s))) @ filter ?P (document_scripts h)"
    by (simp add: s' h' document_scripts_def remove_def scripts_of_remove_script)
  from assms(1) have d: "distinct (map sid (document_scripts (document s) @ document_scripts h))"
    and b: "\<forall>x\<in>set (document_scripts (document s) @ document_scripts h). sid x < next_id s"
    by (simp_all add: wellformed_def list_all_iff)
  from assms(2) b have lt: "sid sc < next_id s" by auto
  from d have "distinct (map sid (filter ?P (document_scripts (document s) @ document_scripts h)))"
    by (rule distinct_map_filter)
  then have "distinct (map sid (filter ?P (scripts_of (head (document s)))
        @ filter ?P (scripts_of (body (document s))) @ filter ?P (document_scripts h)))"
    by (simp add: document_scripts_def)
  then have "distinct (map sid (filter ?P (scripts_of (head (document s))) @ [sc]
        @ filter ?P (scripts_of (body (document s))) @ filter ?P (document_scripts h)))"
    by auto
  moreover from b lt have "\<forall>x\<in>set (filter ?P (scripts_of (head (document s))) @ [sc]
        @ filter ?P (scripts_of (body (document s))) @ filter ?P (document_scripts h)).
      sid x < next_id s"
    by (auto simp: document_scripts_def)
  moreover have "next_id s' = next_id s" by (simp add: s')
  ultimately show ?thesis unfolding eq by (simp add: wellformed_def list_all_iff)
next
  case False
  with assms show ?thesis by (auto simp: loadHeadScripts_def split: if_splits)
qed

lemma loadBodyScripts_wellformed:
  assumes "wellformed (next_id s) (document_scripts (document s) @ document_scripts h)"
    and "loadBodyScripts sc (s, h) = Inr (s', h')"
  shows "wellformed (next_id s') (document_scripts (document s') @ document_scripts h')"
proof -
  define new where "new = \<lparr>sid = next_id s,
      src = (if src sc \<noteq> [] then src sc else []),
      textContent = (if src sc \<noteq> [] then [] else textContent sc),
      type = (if type sc \<noteq> [] then type sc else ''text/javascript'')\<rparr>"
  have n: "sid new = next_id s" by (simp add: new_def)
  have "loadBodyScripts sc (s, h)
      = (if parentNode_tagName (sid sc) (document s) = None \<and> parentNode_tagName (sid sc) h = None
         then Inl (Throw (cannot_read ''null'' ''insertBefore'') (s\<lparr>next_id := Suc (next_id s)\<rparr>))
         else Inr (s\<lparr>next_id := Suc (next_id s),
                     document := insertBefore_remove (sid sc) new (document s)\<rparr>,
                   insertBefore_remove (sid sc) new h))"
    unfolding loadBodyScripts_def Let_def new_def by simp
  with assms(2) have s': "s' = s\<lparr>next_id := Suc (next_id s),
        document := insertBefore_remove (sid sc) new (document s)\<rparr>"
    and h': "h' = insertBefore_remove (sid sc) new h"
    by (simp_all split: if_splits)
  let ?xs = "document_scripts (document s) @ document_scripts h"
  have eq: "document_scripts (document s') @ document_scripts h'
      = map (\<lambda>x. if sid x = sid sc then new else x) ?xs"
    by (simp add: s' h' document_scripts_insertBefore_remove)
  from assms(1) have d: "distinct (map sid ?xs)" and b: "\<forall>x\<in>set ?xs. sid x < next_id s"
    by (simp_all add: wellformed_def list_all_iff)
  from b n have "sid new \<notin> sid ` set ?xs" by auto
  with d have "distinct (map sid (map (\<lambda>x. if sid x = sid sc then new else x) ?xs))"
    by (rule distinct_replace)
  moreover from b n have "\<forall>x\<in>set (map (\<lambda>x. if sid x = sid sc then new else x) ?xs).
      sid x < Suc (next_id s)"
    by (auto intro: less_SucI)
  moreover have "next_id s' = Suc (next_id s)" by (simp add: s')
  ultimately show ?thesis unfolding eq by (simp add: wellformed_def list_all_iff)
qed

lemma parentNode_tagName_Some:
  assumes "parentNode_tagName i d = Some t"
  shows "i \<in> sid ` set (document_scripts d)"
proof (cases "parent_tagName i ''HEAD'' (head d)")
  case None
  with assms have "parent_tagName i ''BODY'' (body d) \<noteq> None"
    by (simp add: parentNode_tagName_def)
  then have "i \<in> sid ` set (scripts_of (body d))" by (simp add: parent_tagName_None)
  then show ?thesis by (auto simp: document_scripts_def)
next
  case (Some a)
  then have "parent_tagName i ''HEAD'' (head d) \<noteq> None" by simp
  then have "i \<in> sid ` set (scripts_of (head d))" by (simp add: parent_tagName_None)
  then show ?thesis by (auto simp: document_scripts_def)
qed

lemma runScripts_callback_wellformed:
  assumes "wellformed (next_id s) (document_scripts (document s) @ document_scripts h)"
    and "runScripts_callback sc (s, h) = Inr (s', h')"
  shows "wellformed (next_id s') (document_scripts (document s') @ document_scripts h')"
proof (cases "case parentNode_tagName (sid sc) (document s) of
                 Some t \<Rightarrow> Some t
               | None \<Rightarrow> parentNode_tagName (sid sc) h")
  case None
  with assms(2) show ?thesis by (simp add: runScripts_callback_def)
next
  case (Some t)
  then have m: "sid sc \<in> sid ` set (document_scripts (document s) @ document_scripts h)"
    by (auto split: option.splits dest: parentNode_tagName_Some)
  consider "t = ''HEAD''" | "t \<noteq> ''HEAD''" "t = ''BODY''" | "t \<noteq> ''HEAD''" "t \<noteq> ''BODY''"
    by blast
  then show ?thesis
  proof cases
    case 1
    with Some assms(2) have "loadHeadScripts sc (s, h) = Inr (s', h')"
      by (simp add: runScripts_callback_def)
    with assms(1) m show ?thesis by (rule loadHeadScripts_wellformed)
  next
    case 2
    with Some assms(2) have "loadBodyScripts sc (s, h) = Inr (s', h')"
      by (simp add: runScripts_callback_def)
    with assms(1) show ?thesis by (rule loadBodyScripts_wellformed)
  next
    case 3
    with Some assms show ?thesis by (simp add: runScripts_callback_def)
  qed
qed

lemma runScripts_wellformed:
  assumes "wellformed (next_id s) (document_scripts (document s) @ document_scripts h)"
    and "runScripts scs (s, h) = Inr (s', h')"
  shows "wellformed (next_id s') (document_scripts (document s') @ document_scripts h')"
  using assms
proof (induction scs arbitrary: s h)
  case Nil
  then show ?case by simp
next
  case (Cons sc scs)
  from Cons.prems(2) obtain s1 h1 where c: "runScripts_callback sc (s, h) = Inr (s1, h1)"
    and r: "runScripts scs (s1, h1) = Inr (s', h')"
    by (auto split: sum.splits)
  from Cons.prems(1) c have "wellformed (next_id s1)
      (document_scripts (document s1) @ document_scripts h1)"
    by (rule runScripts_callback_wellformed)
  then show ?case using r by (rule Cons.IH)
qed

lemma wellformed_appendD: "wellformed n (xs @ ys) \<Longrightarrow> wellformed n xs"
  by (simp add: wellformed_def)

lemma runScripts_callback_Throw_wellformed:
  assumes "wellformed (next_id s) (document_scripts (document s) @ document_scripts h)"
    and "runScripts_callback sc (s, h) = Inl (Throw e s')"
  shows "wellformed (next_id s') (document_scripts (document s'))"
proof -
  from assms(1) have w: "wellformed (next_id s) (document_scripts (document s))"
    by (rule wellformed_appendD)
  then have w': "wellformed (next_id (s\<lparr>next_id := Suc (next_id s)\<rparr>))
      (document_scripts (document (s\<lparr>next_id := Suc (next_id s)\<rparr>)))"
    by (simp add: wellformed_mono)
  have "loadHeadScripts sc (s, h) = Inl (Throw e s') \<Longrightarrow> s' = s"
    by (auto simp: loadHeadScripts_def split: if_splits)
  moreover have "loadBodyScripts sc (s, h) = Inl (Throw e s')
      \<Longrightarrow> s' = s\<lparr>next_id := Suc (next_id s)\<rparr>"
    by (auto simp: loadBodyScripts_def Let_def split: if_splits)
  ultimately consider "s' = s" | "s' = s\<lparr>next_id := Suc (next_id s)\<rparr>"
    using runScripts_callback_cases [of sc s h] assms(2) by auto
  then show ?thesis using w w' by cases simp_all
qed

lemma runScripts_Throw_wellformed:
  assumes "wellformed (next_id s) (document_scripts (document s) @ document_scripts h)"
    and "runScripts scs (s, h) = Inl (Throw e s')"
  shows "wellformed (next_id s') (document_scripts (document s'))"
  using assms
proof (induction scs arbitrary: s h)
  case Nil
  then show ?case by simp
next
  case (Cons sc scs)
  show ?case
  proof (cases "runScripts_callback sc (s, h)")
    case (Inl f)
    with Cons.prems(2) have "runScripts_callback sc (s, h) = Inl (Throw e s')" by simp
    with Cons.prems(1) show ?thesis by (rule runScripts_callback_Throw_wellformed)
  next
    case (Inr r)
    obtain s1 h1 where r: "r = (s1, h1)" by (cases r)
    with Inr have c: "runScripts_callback sc (s, h) = Inr (s1, h1)" by simp
    with Cons.prems(1) have "wellformed (next_id s1)
        (document_scripts (document s1) @ document_scripts h1)"
      by (rule runScripts_callback_wellformed)
    moreover from c Cons.prems(2) have "runScripts scs (s1, h1) = Inl (Throw e s')" by simp
    ultimately show ?thesis by (rule Cons.IH)
  qed
qed

lemma enableSPA_wellformed:
  "enableSPA s = Some s' \<Longrightarrow> wellformed (next_id s) (document_scripts (document s))
   \<Longrightarrow> wellformed (next_id s') (document_scripts (document s'))"
  by (auto simp: enableSPA_def document_scripts_def split: option.splits)

lemma navigate_then_wellformed:
  assumes "wellformed (next_id s) (document_scripts (document s))"
  shows "(navigate_then u p s = Inr s' \<longrightarrow> wellformed (next_id s') (document_scripts (document s')))
         \<and> (navigate_then u p s = Inl (Throw e s')
            \<longrightarrow> wellformed (next_id s') (document_scripts (document s')))"
proof (intro conjI impI)
  assume "navigate_then u p s = Inr s'"
  then obtain html s1 s2 s3 html3 s4 html4 s5 where
    p: "parseHTML p s = (html, s1)" and c: "clear s1 = Inr s2"
    and l: "loadHTML html s2 = (s3, html3)"
    and r: "runScripts (document_scripts (document s3) @ document_scripts html3) (s3, html3)
         = Inr (s4, html4)"
    and e: "enableSPA s4 = Some s5"
    and s': "s' = pushState \<lparr>url = Some u\<rparr> (title (document s5)) u s5"
    by (rule navigate_then_Inr)
  from p assms have "wellformed (next_id s1) (document_scripts (document s1) @ document_scripts html)"
    by (rule parseHTML_wellformed)
  then have "wellformed (next_id s2) (document_scripts (document s2) @ document_scripts html)"
    using c by (rule clear_wellformed)
  then have "wellformed (next_id s3) (document_scripts (document s3) @ document_scripts html3)"
    using l by (rule loadHTML_wellformed)
  then have "wellformed (next_id s4) (document_scripts (document s4) @ document_scripts html4)"
    using r by (rule runScripts_wellformed)
  then have "wellformed (next_id s4) (document_scripts (document s4))"
    by (rule wellformed_appendD)
  with e have "wellformed (next_id s5) (document_scripts (document s5))"
    by (rule enableSPA_wellformed)
  with s' show "wellformed (next_id s') (document_scripts (document s'))"
    by (simp add: pushState_def)
next
  assume "navigate_then u p s = Inl (Throw e s')"
  then show "wellformed (next_id s') (document_scripts (document s'))"
  proof (cases rule: navigate_then_Throw)
    case (1 html s1)
    from 1(1) assms have "wellformed (next_id s1)
        (document_scripts (document s1) @ document_scripts html)"
      by (rule parseHTML_wellformed)
    moreover from 1(2) have "s' = s1" by (auto simp: clear_def split: if_splits)
    ultimately show ?thesis by (simp add: wellformed_appendD)
  next
    case (2 html s1 s2 s3 html3)
    from 2(1) assms have "wellformed (next_id s1)
        (document_scripts (document s1) @ document_scripts html)"
      by (rule parseHTML_wellformed)
    then have "wellformed (next_id s2) (document_scripts (document s2) @ document_scripts html)"
      using 2(2) by (rule clear_wellformed)
    then have "wellformed (next_id s3) (document_scripts (document s3) @ document_scripts html3)"
      using 2(3) by (rule loadHTML_wellformed)
    then show ?thesis using 2(4) by (rule runScripts_Throw_wellformed)
  qed
qed

lemma navigate_wellformed:
  assumes "wellformed (next_id s) (document_scripts (document s))"
    and "state_after (navigate fetch a s) = Some s'"
  shows "wellformed (next_id s') (document_scripts (document s'))"
proof (cases "getUrl a")
  case (Inl e)
  with assms show ?thesis by (simp add: navigate_def)
next
  case (Inr u)
  show ?thesis
  proof (cases "getPage fetch u")
    case (Rejected e)
    with Inr assms show ?thesis
      by (auto simp: navigate_def navigate_catch_def console_error_def)
  next
    case (Resolved p)
    show ?thesis
    proof (cases "navigate_then u p s")
      case (Inl f)
      show ?thesis
      proof (cases f)
        case (Throw e s1)
        with Inl have "wellformed (next_id s1) (document_scripts (document s1))"
          using navigate_then_wellformed [OF assms(1)] by blast
        moreover from Inr Resolved Inl Throw assms(2) have "s' = navigate_catch e s1"
          by (simp add: navigate_def)
        ultimately show ?thesis by (simp add: navigate_catch_def console_error_def)
      next
        case OutsideModel
        with Inr Resolved Inl assms(2) show ?thesis by (simp add: navigate_def)
      qed
    next
      case r: (Inr s1)
      with Inr Resolved assms(2) have "s' = s1" by (simp add: navigate_def)
      with r show ?thesis using navigate_then_wellformed [OF assms(1)] by blast
    qed
  qed
qed

lemma perform_wellformed:
  assumes "wellformed (next_id s) (document_scripts (document s))"
    and "state_after (perform x s) = Some s'"
  shows "wellformed (next_id s') (document_scripts (document s'))"
proof (cases x)
  case (Navigate fetch a)
  with assms show ?thesis by (simp add: navigate_wellformed)
next
  case (Popstate fetch ev)
  show ?thesis
  proof (cases "onpopstate_set s")
    case True
    show ?thesis
    proof (cases ev)
      case None
      with Popstate True assms show ?thesis by (simp add: popstate_def onpopstate_def)
    next
      case (Some st)
      with Popstate True assms show ?thesis
        by (simp add: popstate_def onpopstate_def navigate_wellformed)
    qed
  next
    case False
    with Popstate assms show ?thesis by (simp add: popstate_def)
  qed
next
  case Clear
  show ?thesis
  proof (cases "enabled (options s)")
    case True
    with Clear assms(2) have c: "clear s = Inr s'" by (simp add: clear_def)
    from assms(1) have "wellformed (next_id s)
        (document_scripts (document s) @ document_scripts \<lparr>title = [], head = [], body = []\<rparr>)"
      by (simp add: document_scripts_def)
    then have "wellformed (next_id s')
        (document_scripts (document s') @ document_scripts \<lparr>title = [], head = [], body = []\<rparr>)"
      using c by (rule clear_wellformed)
    then show ?thesis by (simp add: document_scripts_def)
  next
    case False
    with Clear assms show ?thesis by (simp add: clear_def)
  qed
qed

lemma perform_all_wellformed:
  "wellformed (next_id s) (document_scripts (document s)) \<Longrightarrow> perform_all xs s = Some s'
   \<Longrightarrow> wellformed (next_id s') (document_scripts (document s'))"
proof (induction xs arbitrary: s)
  case Nil
  then show ?case by simp
next
  case (Cons x xs)
  then obtain s1 where 1: "state_after (perform x s) = Some s1" and 2: "perform_all xs s1 = Some s'"
    by (auto split: option.splits)
  from Cons.prems(1) 1 have "wellformed (next_id s1) (document_scripts (document s1))"
    by (rule perform_wellformed)
  then show ?case using 2 by (rule Cons.IH)
qed

lemma constructor_wellformed:
  assumes "constructor opts b = Some s"
    and "wellformed (next_id b) (document_scripts (document b))"
  shows "wellformed (next_id s) (document_scripts (document s))"
proof (cases "enabled opts")
  case True
  let ?s0 = "browser.extend b
      \<lparr>options = opts, scriptsStore = [], initialScripts = document_scripts (document b)\<rparr>"
  from assms(2) have "wellformed (next_id (addRouteListener ?s0))
      (document_scripts (document (addRouteListener ?s0)))"
    by (simp add: addRouteListener_def browser.extend_def)
  moreover from assms(1) True obtain s1 where "enableSPA (addRouteListener ?s0) = Some s1"
    and "s = pushState \<lparr>url = Some (location_pathname s1)\<rparr> (title (document s1))
              (location_pathname s1) s1"
    by (auto simp: constructor_def initialize_def split: option.splits)
  ultimately show ?thesis by (auto simp: pushState_def dest: enableSPA_wellformed)
next
  case False
  with assms show ?thesis by (auto simp: constructor_def browser.extend_def)
qed

lemma rendering_wellformed:
  assumes "wellformed (next_id s) (document_scripts (document s))"
    and "parseHTML p s = (html, s1)" and "clear s1 = Inr s2" and "loadHTML html s2 = (s3, html3)"
  shows "wellformed (next_id s3) (document_scripts (document s3) @ document_scripts html3)"
proof -
  from assms(2,1) have "wellformed (next_id s1)
      (document_scripts (document s1) @ document_scripts html)"
    by (rule parseHTML_wellformed)
  then have "wellformed (next_id s2) (document_scripts (document s2) @ document_scripts html)"
    using assms(3) by (rule clear_wellformed)
  then show ?thesis using assms(4) by (rule loadHTML_wellformed)
qed

text \<open>
  C7, as the code has it, for a candidate that is a child of the body element itself, at
  position \<open>k\<close>. The elements of the live and of the parsed document have distinct
  identities below the counter: so it is when the scripts of a navigation are processed
  (\<open>rendering_wellformed\<close>), after every candidate
  (\<open>runScripts_callback_wellformed\<close>) and in every state a router reaches
  (\<open>perform_all_wellformed\<close>). Processing the candidate puts one new script element
  at position \<open>k\<close> of the live body, in the place of the candidate, and changes
  nothing else. The new element has the source of the candidate, or its text when it has
  no source, and its type, or \<^verbatim>\<open>text/javascript\<close> when the candidate has no type.
  The new element is none of the old ones, and the candidate is in the document no more.
\<close>

theorem C7_body_script:
  "k < length (body (document s)) \<and> body (document s) ! k = Script sc
   \<and> wellformed (next_id s) (document_scripts (document s) @ document_scripts h)
   \<longrightarrow> runScripts_callback sc (s, h)
        = Inr (s\<lparr>document := (document s)
                   \<lparr>body := (body (document s))
                      [k := Script \<lparr>sid = next_id s,
                                    src = src sc,
                                    textContent = (if src sc = [] then textContent sc else []),
                                    type = (if type sc = [] then ''text/javascript'' else type sc)\<rparr>]\<rparr>,
                 next_id := Suc (next_id s)\<rparr>, h)
       \<and> next_id s \<notin> sid ` set (document_scripts (document s))
       \<and> sid sc \<notin> sid ` set (scripts_of (head (document s)))
       \<and> sid sc \<notin> sid ` set (scripts_of
            ((body (document s))
               [k := Script \<lparr>sid = next_id s,
                             src = src sc,
                             textContent = (if src sc = [] then textContent sc else []),
                             type = (if type sc = [] then ''text/javascript'' else type sc)\<rparr>]))"
proof (intro impI)
  let ?new = "\<lparr>sid = next_id s, src = src sc,
               textContent = (if src sc = [] then textContent sc else []),
               type = (if type sc = [] then ''text/javascript'' else type sc)\<rparr>"
  let ?script' = "\<lparr>sid = next_id s, src = (if src sc \<noteq> [] then src sc else []),
               textContent = (if src sc \<noteq> [] then [] else textContent sc),
               type = (if type sc \<noteq> [] then type sc else ''text/javascript'')\<rparr>"
  assume h: "k < length (body (document s)) \<and> body (document s) ! k = Script sc
   \<and> wellformed (next_id s) (document_scripts (document s) @ document_scripts h)"
  have new: "?script' = ?new" by simp
  from h have k: "k < length (body (document s))" "body (document s) ! k = Script sc" by simp_all
  then have m: "sc \<in> set (scripts_of (body (document s)))" by (rule nth_Script_in_scripts_of)
  from h have dd: "distinct (map sid (document_scripts (document s)))"
    and dh: "sid ` set (document_scripts (document s)) \<inter> sid ` set (document_scripts h) = {}"
    and below: "\<forall>x\<in>set (document_scripts (document s)). sid x < next_id s"
    by (auto simp: wellformed_def list_all_iff)
  from dd have db: "distinct (map sid (scripts_of (body (document s))))"
    and dj: "sid ` set (scripts_of (head (document s))) \<inter> sid ` set (scripts_of (body (document s))) = {}"
    by (simp_all add: document_scripts_def)
  from dj m have nh: "sid sc \<notin> sid ` set (scripts_of (head (document s)))" by auto
  from m have "sid sc \<in> sid ` set (document_scripts (document s))"
    by (simp add: document_scripts_def)
  with dh have nhd: "sid sc \<notin> sid ` set (document_scripts h)" by auto
  have pb: "parent_tagName (sid sc) ''BODY'' (body (document s)) = Some ''BODY''"
    using child_script [OF k db] by simp
  have rb: "replace_script (sid sc) n (body (document s)) = (body (document s))[k := Script n]" for n
    using child_script [OF k db] by simp
  from nh have ph: "parent_tagName (sid sc) ''HEAD'' (head (document s)) = None"
    by (simp add: parent_tagName_None)
  from ph pb have p: "parentNode_tagName (sid sc) (document s) = Some ''BODY''"
    by (simp add: parentNode_tagName_def)
  from nh have rh: "replace_script (sid sc) n (head (document s)) = head (document s)" for n
    by (rule replace_script_absent)
  from nhd have "sid sc \<notin> sid ` set (scripts_of (head h))" "sid sc \<notin> sid ` set (scripts_of (body h))"
    by (auto simp: document_scripts_def)
  then have "replace_script (sid sc) n (head h) = head h"
    "replace_script (sid sc) n (body h) = body h" for n
    by (simp_all add: replace_script_absent)
  then have hh: "insertBefore_remove (sid sc) n h = h" for n
    by (simp add: insertBefore_remove_def)
  have d: "insertBefore_remove (sid sc) n (document s)
      = (document s)\<lparr>body := (body (document s))[k := Script n]\<rparr>" for n
    by (simp add: insertBefore_remove_def rh rb)
  have 1: "runScripts_callback sc (s, h)
      = Inr (s\<lparr>document := (document s)\<lparr>body := (body (document s))[k := Script ?new]\<rparr>,
               next_id := Suc (next_id s)\<rparr>, h)"
    unfolding runScripts_callback_def loadBodyScripts_def Let_def new
    by (simp add: p hh d)
  from below have 2: "next_id s \<notin> sid ` set (document_scripts (document s))" by auto
  from m below have "sid sc < next_id s" by (simp add: document_scripts_def)
  then have "sid sc \<noteq> next_id s" by simp
  then have 3: "sid sc \<notin> sid ` set (scripts_of ((body (document s))[k := Script ?new]))"
    unfolding rb [symmetric] scripts_of_replace_script by auto
  from 1 2 nh 3 show "runScripts_callback sc (s, h)
        = Inr (s\<lparr>document := (document s)\<lparr>body := (body (document s))[k := Script ?new]\<rparr>,
                 next_id := Suc (next_id s)\<rparr>, h)
       \<and> next_id s \<notin> sid ` set (document_scripts (document s))
       \<and> sid sc \<notin> sid ` set (scripts_of (head (document s)))
       \<and> sid sc \<notin> sid ` set (scripts_of ((body (document s))[k := Script ?new]))"
    by blast
qed

theorem C7_body_script_witness:
  "runScripts_callback \<lparr>sid = 6, src = [], textContent = ''about()'', type = []\<rparr>
     (example_state_loaded, example_page_loaded)
   = Inr (example_state_loaded
            \<lparr>document := (document example_state_loaded)
               \<lparr>body := (body (document example_state_loaded))
                  [1 := Script \<lparr>sid = 7, src = [], textContent = ''about()'',
                                type = ''text/javascript''\<rparr>]\<rparr>,
             next_id := 8\<rparr>,
          example_page_loaded)"
proof -
  have "1 < length (body (document example_state_loaded))
    \<and> body (document example_state_loaded) ! 1
        = Script \<lparr>sid = 6, src = [], textContent = ''about()'', type = []\<rparr>
    \<and> wellformed (next_id example_state_loaded)
        (document_scripts (document example_state_loaded) @ document_scripts example_page_loaded)"
    by (simp add: example_state_loaded_def example_page_loaded_def example_state_def
        document_scripts_def wellformed_def)
  moreover have "next_id example_state_loaded = 7"
    by (simp add: example_state_loaded_def example_state_def)
  ultimately show ?thesis
    using C7_body_script [of 1 example_state_loaded
        "\<lparr>sid = 6, src = [], textContent = ''about()'', type = []\<rparr>" example_page_loaded]
    by simp
qed

text \<open>
  C7 as the specification states it fails: in the navigation to \<^verbatim>\<open>/about.html\<close>
  the body script without a type (the parser's element 6) is rebuilt as element 7 with
  the type \<^verbatim>\<open>text/javascript\<close>, which is not a copy of its type; and the script
  inside the \<^verbatim>\<open>div\<close> (the parser's element 5) stays in the body as parsed.
\<close>

theorem C7_counterexample:
  "navigate example_fetch (Path ''/about.html'') example_state = Inr example_state_about
   \<and> body (fst (parseHTML (Html example_page) example_state))
      = [Elem ''DIV'' [Script \<lparr>sid = 5, src = [], textContent = ''nested()'', type = []\<rparr>],
         Script \<lparr>sid = 6, src = [], textContent = ''about()'', type = []\<rparr>,
         Link \<lparr>pathname = ''/x.html'', dataset_noSpa = True, click_listeners = 0\<rparr>]
   \<and> body (document example_state_about)
      = [Elem ''DIV'' [Script \<lparr>sid = 5, src = [], textContent = ''nested()'', type = []\<rparr>],
         Script \<lparr>sid = 7, src = [], textContent = ''about()'', type = ''text/javascript''\<rparr>,
         Link \<lparr>pathname = ''/x.html'', dataset_noSpa = True, click_listeners = 0\<rparr>]"
  using navigate_example by (simp add: parseHTML_example example_state_about_def)

end
